theory Spec2Isabelle
  imports Main "HOL-Library.AList"
begin

section \<open>JavaScript values\<close>

text \<open>
  The values the permission code inspects. Numbers are left out: for every test the code
  makes (\<open>isString\<close>, \<open>isArray\<close>, \<open>isFunction\<close>, \<open>isObject\<close>, \<open>isDefined\<close>,
  truthiness) a number behaves like a boolean. A plain object is the list of its own
  enumerable properties in insertion order; property names inherited from
  \<open>Object.prototype\<close> are outside the model. Arrays and plain objects are immutable
  values, because the code never writes to one it was given. A function is an object with
  identity: \<open>Fn r\<close> is a reference, and the one property the code writes, \<open>$inject\<close>,
  lives in a heap indexed by the reference.
\<close>

datatype jsval =
    Undefined
  | Null
  | Boolean bool
  | Str string
  | Arr "jsval list"
  | Obj "(string \<times> jsval) list"
  | Fn nat

datatype error = ReferenceError string | TypeError string

section \<open>Promises in logical time\<close>

text \<open>
  A promise is described by when it settles and how. Time is a logical clock: the
  continuations of \<open>$q\<close> run at the instant the promise they wait for settles.
  \<open>Pending\<close> is a promise that never settles.
\<close>

datatype settle = Resolved jsval | Rejected jsval

datatype promise = Pending | Settled nat settle

text \<open>
  The role and permission stores are external collaborators. A definition's
  \<open>validateRole()\<close> / \<open>validatePermission()\<close>, called at time \<open>t\<close>, returns a promise that
  never settles or settles after some delay.
\<close>

datatype validation = Never | After nat settle

record stores =
  PermRoleStore :: "string \<Rightarrow> (nat \<Rightarrow> validation) option"
  PermPermissionStore :: "string \<Rightarrow> (nat \<Rightarrow> validation) option"

definition validate :: "nat \<Rightarrow> (nat \<Rightarrow> validation) \<Rightarrow> promise" where
  "validate t d = (case d t of Never \<Rightarrow> Pending | After delay s \<Rightarrow> Settled (t + delay) s)"

text \<open>What one privilege check does to the outside world, in order.\<close>

datatype event =
    HasRoleDefinition string
  | GetRoleDefinition string
  | ValidateRole string
  | HasPermissionDefinition string
  | GetPermissionDefinition string
  | ValidatePermission string
  | LogWarn string

subsection \<open>The combinators\<close>

text \<open>\<open>$q.all\<close> of AngularJS: rejects with the first rejection to arrive, otherwise
  resolves with the array of all values once the last promise has resolved.\<close>

fun first_rejected :: "promise list \<Rightarrow> (nat \<times> jsval) option" where
  "first_rejected [] = None"
| "first_rejected (Settled t (Rejected r) # ps) =
     (case first_rejected ps of
        None \<Rightarrow> Some (t, r)
      | Some (t', r') \<Rightarrow> if t \<le> t' then Some (t, r) else Some (t', r'))"
| "first_rejected (_ # ps) = first_rejected ps"

fun resolved_values :: "promise list \<Rightarrow> jsval list" where
  "resolved_values [] = []"
| "resolved_values (Settled t (Resolved v) # ps) = v # resolved_values ps"
| "resolved_values (_ # ps) = resolved_values ps"

fun latest :: "nat \<Rightarrow> promise list \<Rightarrow> nat" where
  "latest t [] = t"
| "latest t (Settled s _ # ps) = latest (max t s) ps"
| "latest t (Pending # ps) = latest t ps"

definition q_all :: "nat \<Rightarrow> promise list \<Rightarrow> promise" where
  "q_all t ps =
     (case first_rejected ps of
        Some (s, r) \<Rightarrow> Settled s (Rejected r)
      | None \<Rightarrow>
          if Pending \<in> set ps then Pending
          else Settled (latest t ps) (Resolved (Arr (resolved_values ps))))"

text \<open>
  Modelled from the spec: \<open>$q.any\<close>, the "any of N promises" combinator that this
  repository adds to \<open>$q\<close>; its source is not among the files. The spec: the group
  succeeds as soon as any one name validates (first to settle successfully wins) with that
  validation's payload; if all fail, it fails with the final settled rejection (an
  accumulator retaining the most recent failure). Promises that settle at the same
  instant are handled in list order. For no promises at all the spec gives no reason to
  report; the model rejects with \<open>undefined\<close>.
\<close>

fun first_resolved :: "promise list \<Rightarrow> (nat \<times> jsval) option" where
  "first_resolved [] = None"
| "first_resolved (Settled t (Resolved v) # ps) =
     (case first_resolved ps of
        None \<Rightarrow> Some (t, v)
      | Some (t', v') \<Rightarrow> if t \<le> t' then Some (t, v) else Some (t', v'))"
| "first_resolved (_ # ps) = first_resolved ps"

fun last_rejected :: "promise list \<Rightarrow> (nat \<times> jsval) option" where
  "last_rejected [] = None"
| "last_rejected (Settled t (Rejected r) # ps) =
     (case last_rejected ps of
        None \<Rightarrow> Some (t, r)
      | Some (t', r') \<Rightarrow> if t \<le> t' then Some (t', r') else Some (t, r))"
| "last_rejected (_ # ps) = last_rejected ps"

definition q_any :: "nat \<Rightarrow> promise list \<Rightarrow> promise" where
  "q_any t ps =
     (case first_resolved ps of
        Some (s, v) \<Rightarrow> Settled s (Resolved v)
      | None \<Rightarrow>
          if Pending \<in> set ps then Pending
          else (case last_rejected ps of
                  Some (s, r) \<Rightarrow> Settled s (Rejected r)
                | None \<Rightarrow> Settled t (Rejected Undefined)))"

section \<open>The collaborators\<close>

text \<open>
  What the module receives by injection. \<open>PermTransitionProperties\<close> is the ambient
  transition context. A caller's function is known by what it returns when called with
  the context (\<open>f.call(null, PermTransitionProperties)\<close>; it is taken to return) and by
  its declared number of parameters (\<open>f.length\<close>). \<open>$injector.invoke\<close> belongs to
  AngularJS: for a callable the caller supplied, \<open>injector_invoke f rejectedPermission transitionProperties\<close> is
  what the invocation with those two locals does.
\<close>

datatype invoked = Throws error | Returns jsval | ReturnsPromise promise

record environment =
  PermTransitionProperties :: jsval
  call :: "nat \<Rightarrow> jsval \<Rightarrow> jsval"
  arity :: "nat \<Rightarrow> nat"
  injector_invoke :: "jsval \<Rightarrow> string \<Rightarrow> jsval \<Rightarrow> invoked"

type_synonym heap = "nat \<Rightarrow> jsval"

subsection \<open>The tests of \<open>angular\<close>\<close>

fun isString :: "jsval \<Rightarrow> bool" where
  "isString (Str s) = True"
| "isString _ = False"

fun isArray :: "jsval \<Rightarrow> bool" where
  "isArray (Arr xs) = True"
| "isArray _ = False"

fun isFunction :: "jsval \<Rightarrow> bool" where
  "isFunction (Fn r) = True"
| "isFunction _ = False"

fun isObject :: "jsval \<Rightarrow> bool" where
  "isObject (Arr xs) = True"
| "isObject (Obj ps) = True"
| "isObject _ = False"

fun isDefined :: "jsval \<Rightarrow> bool" where
  "isDefined Undefined = False"
| "isDefined _ = True"

fun truthy :: "jsval \<Rightarrow> bool" where
  "truthy Undefined = False"
| "truthy Null = False"
| "truthy (Boolean b) = b"
| "truthy (Str s) = (s \<noteq> [])"
| "truthy _ = True"

text \<open>\<open>v.key\<close> for a value that is not \<open>undefined\<close> or \<open>null\<close>.\<close>

fun js_get :: "jsval \<Rightarrow> string \<Rightarrow> jsval" where
  "js_get (Obj ps) key = (case map_of ps key of Some v \<Rightarrow> v | None \<Rightarrow> Undefined)"
| "js_get _ key = Undefined"

text \<open>Whether \<open>v.length\<close> is truthy; reading it from \<open>undefined\<close> or \<open>null\<close> throws.\<close>

fun has_length :: "environment \<Rightarrow> jsval \<Rightarrow> error + bool" where
  "has_length env Undefined = Inl (TypeError ''Cannot read property length of undefined'')"
| "has_length env Null = Inl (TypeError ''Cannot read property length of null'')"
| "has_length env (Boolean b) = Inr False"
| "has_length env (Str s) = Inr (s \<noteq> [])"
| "has_length env (Arr xs) = Inr (xs \<noteq> [])"
| "has_length env (Obj ps) = Inr (truthy (js_get (Obj ps) ''length''))"
| "has_length env (Fn r) = Inr (arity env r \<noteq> 0)"

section \<open>PermissionMap\<close>

text \<open>
  The values of a redirection dictionary: the two closures the code creates,
  \<open>function () { return {state: s}; }\<close> and \<open>function () { return o; }\<close>, and a value
  of the caller's stored as it is (by reference when it is a function).
\<close>

datatype resolver = ReturnState jsval | ReturnObject jsval | Supplied jsval

text \<open>\<open>normalizeRedirectToProperty\<close> returns a dictionary, or its argument unchanged when
  that is neither a string, nor injectable, nor a function, nor an object.\<close>

datatype redirect_to = Dictionary "(string \<times> resolver) list" | Unchanged jsval

text \<open>\<open>normalizeOnlyAndExceptProperty\<close>, with the calls it makes to functions of the
  caller: each a reference and the argument passed.\<close>

type_synonym invocation = "nat \<times> jsval"

definition normalizeOnlyAndExceptProperty :: "environment \<Rightarrow> jsval \<Rightarrow> invocation list \<times> jsval" where
  "normalizeOnlyAndExceptProperty env property =
     (if isString property then ([], Arr [property])
      else if isArray property then ([], property)
      else if isFunction property
        then (case property of
                Fn f \<Rightarrow> ([(f, PermTransitionProperties env)],
                         call env f (PermTransitionProperties env))
              | _ \<Rightarrow> ([], Arr []))
      else ([], Arr []))"

fun isInjectable :: "heap \<Rightarrow> jsval \<Rightarrow> bool" where
  "isInjectable h (Arr xs) = True"
| "isInjectable h (Obj ps) = isArray (js_get (Obj ps) ''$inject'')"
| "isInjectable h (Fn r) = isArray (h r)"
| "isInjectable h _ = False"

definition backwards_compatible_inject :: jsval where
  "backwards_compatible_inject = Arr [Str ''rejectedPermission'', Str ''transitionProperties'']"

text \<open>\<open>f.$inject = ['rejectedPermission', 'transitionProperties']\<close>; the code reaches
  the assignment only with a function.\<close>

fun set_inject :: "heap \<Rightarrow> jsval \<Rightarrow> heap" where
  "set_inject h (Fn r) = h(r := backwards_compatible_inject)"
| "set_inject h _ = h"

definition normalizeStringRedirectionRule :: "jsval \<Rightarrow> (string \<times> resolver) list" where
  "normalizeStringRedirectionRule redirectTo = [(''default'', ReturnState redirectTo)]"

definition isObjectSingleRedirectionRule :: "jsval \<Rightarrow> bool" where
  "isObjectSingleRedirectionRule redirectTo = isDefined (js_get redirectTo ''state'')"

definition normalizeObjectSingleRedirectionRule :: "jsval \<Rightarrow> (string \<times> resolver) list" where
  "normalizeObjectSingleRedirectionRule redirectTo = [(''default'', ReturnObject redirectTo)]"

definition isObjectMultipleRedirectionRule :: "jsval \<Rightarrow> bool" where
  "isObjectMultipleRedirectionRule redirectTo = isDefined (js_get redirectTo ''default'')"

fun own_properties :: "jsval \<Rightarrow> (string \<times> jsval) list" where
  "own_properties (Obj ps) = ps"
| "own_properties _ = []"

definition normalizeRedirection ::
  "string \<times> jsval \<Rightarrow> heap \<times> (string \<times> resolver) list \<Rightarrow> heap \<times> (string \<times> resolver) list" where
  "normalizeRedirection entry acc =
     (case (entry, acc) of ((permission, redirection), (h, redirectionMap)) \<Rightarrow>
        if isInjectable h redirection
          then (h, AList.update permission (Supplied redirection) redirectionMap)
        else if isFunction redirection
          then (set_inject h redirection, AList.update permission (Supplied redirection) redirectionMap)
        else if isObject redirection
          then (h, AList.update permission (ReturnObject redirection) redirectionMap)
        else if isString redirection
          then (h, AList.update permission (ReturnState redirection) redirectionMap)
        else (h, redirectionMap))"

definition normalizeObjectMultipleRedirectionRule ::
  "heap \<Rightarrow> jsval \<Rightarrow> heap \<times> (string \<times> resolver) list" where
  "normalizeObjectMultipleRedirectionRule h redirectTo =
     fold normalizeRedirection (own_properties redirectTo) (h, [])"

definition normalizeFunctionRedirectionRule ::
  "heap \<Rightarrow> jsval \<Rightarrow> heap \<times> (string \<times> resolver) list" where
  "normalizeFunctionRedirectionRule h redirectTo =
     (if \<not> isInjectable h redirectTo
      then (set_inject h redirectTo, [(''default'', Supplied redirectTo)])
      else (h, [(''default'', Supplied redirectTo)]))"

text \<open>The message of the \<open>ReferenceError\<close> is written without the double quotes that
  the source puts around \<open>redirectTo\<close> and \<open>default\<close>.\<close>

definition normalizeRedirectToProperty :: "heap \<Rightarrow> jsval \<Rightarrow> error + heap \<times> redirect_to" where
  "normalizeRedirectToProperty h redirectTo =
     (if isString redirectTo
        then Inr (h, Dictionary (normalizeStringRedirectionRule redirectTo))
      else if isInjectable h redirectTo \<or> isFunction redirectTo
        then (case normalizeFunctionRedirectionRule h redirectTo of
                (h', redirectionMap) \<Rightarrow> Inr (h', Dictionary redirectionMap))
      else if isObject redirectTo
        then (if isObjectSingleRedirectionRule redirectTo
                then Inr (h, Dictionary (normalizeObjectSingleRedirectionRule redirectTo))
              else if isObjectMultipleRedirectionRule redirectTo
                then (case normalizeObjectMultipleRedirectionRule h redirectTo of
                        (h', redirectionMap) \<Rightarrow> Inr (h', Dictionary redirectionMap))
              else Inl (ReferenceError
                ''When used redirectTo as object, property default must be defined''))
      else Inr (h, Unchanged redirectTo))"

text \<open>
  A \<open>PermissionMap\<close> has \<open>only\<close> and \<open>except\<close> as whatever normalization returned; a
  \<open>StatePermissionMap\<close> has them as arrays of such values, one per state of the path; the
  authorization service reads them as arrays of groups of names, the type its
  documentation gives them.
\<close>

record 'a permission_map =
  only :: 'a
  except :: 'a
  redirectTo :: redirect_to

text \<open>The constructor: \<open>permissionMap || {}\<close>, then the three normalizations in order.\<close>

definition PermissionMap ::
  "environment \<Rightarrow> heap \<Rightarrow> jsval \<Rightarrow> error + heap \<times> jsval permission_map" where
  "PermissionMap env h permissionMap =
     (let pm = (if truthy permissionMap then permissionMap else Obj []);
          only' = snd (normalizeOnlyAndExceptProperty env (js_get pm ''only''));
          except' = snd (normalizeOnlyAndExceptProperty env (js_get pm ''except''))
      in case normalizeRedirectToProperty h (js_get pm ''redirectTo'') of
           Inl e \<Rightarrow> Inl e
         | Inr (h', redirectTo') \<Rightarrow>
             Inr (h', \<lparr>only = only', except = except', redirectTo = redirectTo'\<rparr>))"

subsection \<open>Resolving the redirection\<close>

text \<open>\<open>$injector.invoke\<close> on a dictionary value: the two closures take no argument.\<close>

fun invoke :: "environment \<Rightarrow> resolver \<Rightarrow> string \<Rightarrow> invoked" where
  "invoke env (ReturnState s) rejectedPermission = Returns (Obj [(''state'', s)])"
| "invoke env (ReturnObject v) rejectedPermission = Returns v"
| "invoke env (Supplied f) rejectedPermission =
     injector_invoke env f rejectedPermission (PermTransitionProperties env)"

fun then_redirectState :: "promise \<Rightarrow> promise" where
  "then_redirectState (Settled t (Resolved redirectState)) =
     (if isString redirectState then Settled t (Resolved (Obj [(''state'', redirectState)]))
      else if isObject redirectState then Settled t (Resolved redirectState)
      else Settled t (Rejected Undefined))"
| "then_redirectState p = p"

definition resolveRedirectState ::
  "environment \<Rightarrow> nat \<Rightarrow> resolver \<Rightarrow> string \<Rightarrow> error + promise" where
  "resolveRedirectState env t redirectFunction rejectedPermissionName =
     (case invoke env redirectFunction rejectedPermissionName of
        Throws e \<Rightarrow> Inl e
      | Returns v \<Rightarrow> Inr (then_redirectState (Settled t (Resolved v)))
      | ReturnsPromise p \<Rightarrow> Inr (then_redirectState p))"

text \<open>
  \<open>this.redirectTo[key]\<close>. Reading a property of \<open>undefined\<close> or \<open>null\<close> throws; the
  other values that normalization leaves unchanged are primitives without properties.
  Only own keys are looked up: a key that \<open>Object.prototype\<close> defines (\<open>constructor\<close>,
  \<open>toString\<close>) would find the inherited member in the code, and is outside the model.
\<close>

fun read_redirectTo :: "redirect_to \<Rightarrow> string \<Rightarrow> error + resolver option" where
  "read_redirectTo (Dictionary d) key = Inr (map_of d key)"
| "read_redirectTo (Unchanged Undefined) key =
     Inl (TypeError ''Cannot read property of undefined'')"
| "read_redirectTo (Unchanged Null) key = Inl (TypeError ''Cannot read property of null'')"
| "read_redirectTo (Unchanged v) key = Inr None"

text \<open>\<open>PermissionMap.prototype.resolveRedirectState\<close>, called at time \<open>t\<close>.\<close>

definition PermissionMap_resolveRedirectState ::
  "environment \<Rightarrow> nat \<Rightarrow> 'a permission_map \<Rightarrow> string \<Rightarrow> error + promise" where
  "PermissionMap_resolveRedirectState env t this rejectedPermissionName =
     (case read_redirectTo (redirectTo this) rejectedPermissionName of
        Inl e \<Rightarrow> Inl e
      | Inr (Some redirectState) \<Rightarrow>
          resolveRedirectState env t redirectState rejectedPermissionName
      | Inr None \<Rightarrow>
          (case read_redirectTo (redirectTo this) ''default'' of
             Inl e \<Rightarrow> Inl e
           | Inr (Some redirectState) \<Rightarrow>
               resolveRedirectState env t redirectState rejectedPermissionName
           | Inr None \<Rightarrow> Inr (Settled t (Rejected Undefined))))"

subsection \<open>Checking the names of one group\<close>

text \<open>
  \<open>PermissionMap.prototype.resolvePropertyValidity\<close>: the callback mapped over the names
  of a group, at time \<open>t\<close>. The role store is asked first; the permission store only when
  the role store has no definition; a name in neither is logged and rejected at once.
\<close>

definition resolvePrivilege :: "stores \<Rightarrow> nat \<Rightarrow> string \<Rightarrow> event list \<times> promise" where
  "resolvePrivilege st t privilegeName =
     (case PermRoleStore st privilegeName of
        Some role \<Rightarrow>
          ([HasRoleDefinition privilegeName, GetRoleDefinition privilegeName,
            ValidateRole privilegeName], validate t role)
      | None \<Rightarrow>
          (case PermPermissionStore st privilegeName of
             Some permission \<Rightarrow>
               ([HasRoleDefinition privilegeName, HasPermissionDefinition privilegeName,
                 GetPermissionDefinition privilegeName, ValidatePermission privilegeName],
                validate t permission)
           | None \<Rightarrow>
               ([HasRoleDefinition privilegeName, HasPermissionDefinition privilegeName,
                 LogWarn (''Permission or role '' @ privilegeName @ '' was not defined.'')],
                Settled t (Rejected (Str privilegeName)))))"

definition resolvePropertyValidity ::
  "stores \<Rightarrow> nat \<Rightarrow> string list \<Rightarrow> (event list \<times> promise) list" where
  "resolvePropertyValidity st t property = map (resolvePrivilege st t) property"

section \<open>StatePermissionMap\<close>

text \<open>\<open>angular.extend(dst, src1, src2)\<close>: own properties copied in order, a later one
  overriding; a source that is not an object is skipped.\<close>

fun own_entries :: "redirect_to \<Rightarrow> (string \<times> resolver) list" where
  "own_entries (Dictionary d) = d"
| "own_entries (Unchanged v) = []"

definition angular_extend ::
  "(string \<times> resolver) list \<Rightarrow> redirect_to list \<Rightarrow> (string \<times> resolver) list" where
  "angular_extend dst srcs =
     fold (\<lambda>src acc. fold (\<lambda>(key, v). AList.update key v) (own_entries src) acc) srcs dst"

definition extendPermissionMap ::
  "environment \<Rightarrow> jsval list permission_map \<Rightarrow> jsval permission_map
     \<Rightarrow> error + jsval list permission_map" where
  "extendPermissionMap env this permissionMap =
     (case has_length env (only permissionMap) of
        Inl e \<Rightarrow> Inl e
      | Inr only_length \<Rightarrow>
          (case has_length env (except permissionMap) of
             Inl e \<Rightarrow> Inl e
           | Inr except_length \<Rightarrow>
               Inr \<lparr>only = (if only_length then only this @ [only permissionMap] else only this),
                    except = (if except_length then except this @ [except permissionMap]
                              else except this),
                    redirectTo =
                      (if redirectTo permissionMap \<noteq> Unchanged Undefined
                       then Dictionary (angular_extend [] [redirectTo this, redirectTo permissionMap])
                       else redirectTo this)\<rparr>))"

text \<open>\<open>Object.prototype.hasOwnProperty.call(state.data, 'permissions')\<close>, false when it
  throws.\<close>

definition areSetStatePermissions :: "jsval \<Rightarrow> bool" where
  "areSetStatePermissions state =
     (case js_get state ''data'' of
        Obj ps \<Rightarrow> ''permissions'' \<in> fst ` set ps
      | _ \<Rightarrow> False)"

fun extend_path ::
  "environment \<Rightarrow> heap \<Rightarrow> jsval list permission_map \<Rightarrow> jsval list
     \<Rightarrow> error + heap \<times> jsval list permission_map" where
  "extend_path env h this [] = Inr (h, this)"
| "extend_path env h this (state # rest) =
     (if areSetStatePermissions state
      then (case PermissionMap env h (js_get (js_get state ''data'') ''permissions'') of
              Inl e \<Rightarrow> Inl e
            | Inr (h', permissionMap) \<Rightarrow>
                (case extendPermissionMap env this permissionMap of
                   Inl e \<Rightarrow> Inl e
                 | Inr this' \<Rightarrow> extend_path env h' this' rest))
      else extend_path env h this rest)"

text \<open>The constructor, given the path \<open>state.$$permissionState().path\<close>; the prototype
  is \<open>new PermPermissionMap()\<close>.\<close>

definition StatePermissionMap ::
  "environment \<Rightarrow> heap \<Rightarrow> jsval list \<Rightarrow> error + heap \<times> jsval list permission_map" where
  "StatePermissionMap env h toStatePath =
     extend_path env h \<lparr>only = [], except = [], redirectTo = Unchanged Undefined\<rparr> toStatePath"

section \<open>PermStateAuthorization\<close>

text \<open>\<open>angular.isArray(x) ? x[0] : x\<close>, and \<open>x[0]\<close> on its own.\<close>

fun index0 :: "jsval \<Rightarrow> jsval" where
  "index0 (Arr (x # xs)) = x"
| "index0 (Str (c # cs)) = Str [c]"
| "index0 _ = Undefined"

definition unwrap :: "jsval \<Rightarrow> jsval" where
  "unwrap resolvedPermissions =
     (if isArray resolvedPermissions then index0 resolvedPermissions else resolvedPermissions)"

fun then_unwrap :: "promise \<Rightarrow> promise" where
  "then_unwrap (Settled t (Resolved resolvedPermissions)) =
     Settled t (Resolved (unwrap resolvedPermissions))"
| "then_unwrap p = p"

text \<open>
  One entry per promise that \<open>resolveStatePermissionMap\<close> pushes: when the body of its
  \<open>prev.finally\<close> callback ran (never, if \<open>prev\<close> never settles), what the checks of the
  group did, and the promise itself.
\<close>

record group_run =
  started :: "nat option"
  events :: "event list"
  promise :: promise

type_synonym groups = "string list list permission_map"

text \<open>The promise pushed for one group: its executor waits for \<open>prev\<close> to settle, either
  way, and only then checks the names of the group.\<close>

definition evaluate_group :: "stores \<Rightarrow> promise \<Rightarrow> string list \<Rightarrow> group_run" where
  "evaluate_group st prev statePrivileges =
     (case prev of
        Pending \<Rightarrow> \<lparr>started = None, events = [], promise = Pending\<rparr>
      | Settled t _ \<Rightarrow>
          (let resolvedStatePrivileges = resolvePropertyValidity st t statePrivileges
           in \<lparr>started = Some t,
               events = concat (map fst resolvedStatePrivileges),
               promise = then_unwrap (q_any t (map snd resolvedStatePrivileges))\<rparr>))"

fun reduce_groups :: "stores \<Rightarrow> promise \<Rightarrow> string list list \<Rightarrow> group_run list" where
  "reduce_groups st prev [] = []"
| "reduce_groups st prev (statePrivileges # rest) =
     (let run = evaluate_group st prev statePrivileges
      in run # reduce_groups st (promise run) rest)"

definition resolveStatePermissionMap ::
  "stores \<Rightarrow> nat \<Rightarrow> string list list \<Rightarrow> group_run list" where
  "resolveStatePermissionMap st t privilegesNames =
     (if privilegesNames = []
      then [\<lparr>started = None, events = [], promise = Settled t (Rejected Undefined)\<rparr>]
      else reduce_groups st (Settled t (Resolved Undefined)) privilegesNames)"

definition resolveOnlyStatePermissionMap :: "stores \<Rightarrow> nat \<Rightarrow> groups \<Rightarrow> promise" where
  "resolveOnlyStatePermissionMap st t m =
     (if only m = [] then Settled t (Resolved Undefined)
      else q_all t (map promise (resolveStatePermissionMap st t (only m))))"

definition resolveExceptStatePermissionMap :: "stores \<Rightarrow> nat \<Rightarrow> groups \<Rightarrow> promise" where
  "resolveExceptStatePermissionMap st t m =
     (case q_all t (map promise (resolveStatePermissionMap st t (except m))) of
        Settled s (Resolved rejectedPermissions) \<Rightarrow> Settled s (Rejected (index0 rejectedPermissions))
      | Settled s (Rejected _) \<Rightarrow> resolveOnlyStatePermissionMap st s m
      | Pending \<Rightarrow> Pending)"

definition authorizeStatePermissionMap :: "stores \<Rightarrow> nat \<Rightarrow> groups \<Rightarrow> promise" where
  "authorizeStatePermissionMap st t m = resolveExceptStatePermissionMap st t m"

definition authorizeByPermissionMap :: "stores \<Rightarrow> nat \<Rightarrow> groups \<Rightarrow> promise" where
  "authorizeByPermissionMap st t statePermissionMap = authorizeStatePermissionMap st t statePermissionMap"

section \<open>Facts about the combinators and the chain of groups\<close>

lemma validate_time: "validate t d = Settled s x \<Longrightarrow> t \<le> s"
  by (auto simp: validate_def split: validation.splits)

lemma resolvePrivilege_time: "snd (resolvePrivilege st t n) = Settled s x \<Longrightarrow> t \<le> s"
  by (auto simp: resolvePrivilege_def split: option.splits dest: validate_time)

lemma resolvePropertyValidity_time:
  "Settled s x \<in> set (map snd (resolvePropertyValidity st t g)) \<Longrightarrow> t \<le> s"
  by (auto simp: resolvePropertyValidity_def dest: resolvePrivilege_time [OF sym])

lemma first_resolved_mem: "first_resolved ps = Some (s, v) \<Longrightarrow> Settled s (Resolved v) \<in> set ps"
  by (induction ps arbitrary: s v rule: first_resolved.induct) (auto split: option.splits if_splits)

lemma last_rejected_mem: "last_rejected ps = Some (s, r) \<Longrightarrow> Settled s (Rejected r) \<in> set ps"
  by (induction ps arbitrary: s r rule: last_rejected.induct) (auto split: option.splits if_splits)

lemma first_rejected_mem: "first_rejected ps = Some (s, r) \<Longrightarrow> Settled s (Rejected r) \<in> set ps"
  by (induction ps arbitrary: s r rule: first_rejected.induct) (auto split: option.splits if_splits)

lemma first_rejected_None: "first_rejected ps = None \<longleftrightarrow> (\<forall>s r. Settled s (Rejected r) \<notin> set ps)"
  by (induction ps rule: first_rejected.induct) (auto split: option.splits if_splits)

lemma first_resolved_None: "first_resolved ps = None \<longleftrightarrow> (\<forall>s r. Settled s (Resolved r) \<notin> set ps)"
  by (induction ps rule: first_resolved.induct) (auto split: option.splits if_splits)

lemma last_rejected_None: "last_rejected ps = None \<longleftrightarrow> (\<forall>s r. Settled s (Rejected r) \<notin> set ps)"
  by (induction ps rule: last_rejected.induct) (auto split: option.splits if_splits)

lemma q_any_time:
  assumes "q_any t ps = Settled s x" and "\<And>s x. Settled s x \<in> set ps \<Longrightarrow> t \<le> s"
  shows "t \<le> s"
  using assms
  by (auto simp: q_any_def split: option.splits if_splits dest!: first_resolved_mem last_rejected_mem)

lemma then_unwrap_Settled: "then_unwrap p = Settled s x \<Longrightarrow> \<exists>y. p = Settled s y"
  by (cases p rule: then_unwrap.cases) auto

lemma then_unwrap_Pending: "then_unwrap p = Pending \<longleftrightarrow> p = Pending"
  by (cases p rule: then_unwrap.cases) auto

lemma evaluate_group_started:
  "started (evaluate_group st prev g) = (case prev of Pending \<Rightarrow> None | Settled s _ \<Rightarrow> Some s)"
  by (simp add: evaluate_group_def Let_def split: promise.splits)

lemma evaluate_group_time:
  assumes "promise (evaluate_group st prev g) = Settled s' x"
  shows "\<exists>s y. prev = Settled s y \<and> s \<le> s'"
proof (cases prev)
  case Pending
  with assms show ?thesis by (simp add: evaluate_group_def)
next
  case (Settled s y)
  with assms obtain z where "q_any s (map snd (resolvePropertyValidity st s g)) = Settled s' z"
    by (auto simp: evaluate_group_def Let_def dest: then_unwrap_Settled)
  then have "s \<le> s'"
    by (rule q_any_time) (rule resolvePropertyValidity_time)
  with Settled show ?thesis by simp
qed

lemma length_reduce_groups: "length (reduce_groups st prev gs) = length gs"
  by (induction gs arbitrary: prev) (simp_all add: Let_def)

lemma reduce_groups_0:
  "gs \<noteq> [] \<Longrightarrow> reduce_groups st prev gs ! 0 = evaluate_group st prev (gs ! 0)"
  by (cases gs) (simp_all add: Let_def)

lemma reduce_groups_Suc:
  "Suc k < length gs \<Longrightarrow>
   reduce_groups st prev gs ! Suc k =
     evaluate_group st (promise (reduce_groups st prev gs ! k)) (gs ! Suc k)"
proof (induction gs arbitrary: prev k)
  case Nil
  then show ?case by simp
next
  case (Cons g gs)
  show ?case
  proof (cases k)
    case 0
    with Cons.prems show ?thesis
      by (cases gs) (simp_all add: Let_def)
  next
    case (Suc k')
    with Cons.prems have "Suc k' < length gs" by simp
    from Cons.IH [OF this] Suc show ?thesis by (simp add: Let_def)
  qed
qed

lemma reduce_groups_monotone:
  assumes "i \<le> j" "j < length gs" "promise (reduce_groups st prev gs ! j) = Settled s' x"
  shows "\<exists>s y. promise (reduce_groups st prev gs ! i) = Settled s y \<and> s \<le> s'"
  using assms
proof (induction j arbitrary: s' x)
  case 0
  then show ?case by auto
next
  case (Suc j)
  show ?case
  proof (cases "i = Suc j")
    case True
    with Suc.prems show ?thesis by auto
  next
    case False
    with Suc.prems have ij: "i \<le> j" and j: "j < length gs" by simp_all
    from Suc.prems reduce_groups_Suc [of j gs st prev]
    have "promise (evaluate_group st (promise (reduce_groups st prev gs ! j)) (gs ! Suc j)) = Settled s' x"
      by simp
    from evaluate_group_time [OF this] obtain s y
      where "promise (reduce_groups st prev gs ! j) = Settled s y" "s \<le> s'" by blast
    with Suc.IH [OF ij j] show ?thesis by (meson le_trans)
  qed
qed


lemma promise_cases3:
  obtains "p = Pending" | s v where "p = Settled s (Resolved v)" | s r where "p = Settled s (Rejected r)"
  by (cases p) (auto intro: settle.exhaust)

lemma q_all_resolved_iff:
  "(\<exists>s vs. q_all t ps = Settled s (Resolved vs)) \<longleftrightarrow> (\<forall>p\<in>set ps. \<exists>s v. p = Settled s (Resolved v))"
proof
  assume "\<exists>s vs. q_all t ps = Settled s (Resolved vs)"
  then have none: "first_rejected ps = None" and np: "Pending \<notin> set ps"
    by (auto simp: q_all_def split: option.splits if_splits)
  show "\<forall>p\<in>set ps. \<exists>s v. p = Settled s (Resolved v)"
  proof
    fix p assume "p \<in> set ps"
    with none np show "\<exists>s v. p = Settled s (Resolved v)"
      by (cases p rule: promise_cases3) (auto simp: first_rejected_None)
  qed
next
  assume all: "\<forall>p\<in>set ps. \<exists>s v. p = Settled s (Resolved v)"
  then have "first_rejected ps = None" "Pending \<notin> set ps"
    by (auto simp: first_rejected_None)
  then show "\<exists>s vs. q_all t ps = Settled s (Resolved vs)"
    by (simp add: q_all_def)
qed

lemma first_rejected_at:
  assumes "i < length ps" "ps ! i = Settled s (Rejected r)"
    and "\<And>j. j < i \<Longrightarrow> \<exists>s' v. ps ! j = Settled s' (Resolved v)"
    and "\<And>j s' x. i < j \<Longrightarrow> j < length ps \<Longrightarrow> ps ! j = Settled s' x \<Longrightarrow> s \<le> s'"
  shows "first_rejected ps = Some (s, r)"
  using assms
proof (induction ps arbitrary: i)
  case Nil
  then show ?case by simp
next
  case (Cons p ps)
  show ?case
  proof (cases i)
    case 0
    with Cons.prems have p: "p = Settled s (Rejected r)" by simp
    have "s \<le> t'" if "first_rejected ps = Some (t', r')" for t' r'
    proof -
      from first_rejected_mem [OF that] obtain j where "j < length ps" "ps ! j = Settled t' (Rejected r')"
        by (auto simp: in_set_conv_nth)
      with Cons.prems(4) [of "Suc j" t' "Rejected r'"] 0 show ?thesis by simp
    qed
    with p show ?thesis by (auto split: option.splits)
  next
    case (Suc k)
    from Cons.prems(3) [of 0] Suc obtain s' v where p: "p = Settled s' (Resolved v)" by auto
    have "first_rejected ps = Some (s, r)"
    proof (rule Cons.IH [of k])
      show "k < length ps" using Cons.prems(1) Suc by simp
      show "ps ! k = Settled s (Rejected r)" using Cons.prems(2) Suc by simp
      show "\<exists>s' v. ps ! j = Settled s' (Resolved v)" if "j < k" for j
        using Cons.prems(3) [of "Suc j"] that Suc by simp
      show "s \<le> s'" if "k < j" "j < length ps" "ps ! j = Settled s' x" for j s' x
        using Cons.prems(4) [of "Suc j" s' x] that Suc by simp
    qed
    with p show ?thesis by simp
  qed
qed

lemma resolveStatePermissionMap_nonempty:
  "gs \<noteq> [] \<Longrightarrow> resolveStatePermissionMap st t gs = reduce_groups st (Settled t (Resolved Undefined)) gs"
  by (simp add: resolveStatePermissionMap_def)

lemma q_all_first_failure:
  assumes "gs \<noteq> []" and ps: "ps = map promise (resolveStatePermissionMap st t gs)"
    and i: "i < length ps" "ps ! i = Settled s (Rejected r)"
    and before: "\<And>j. j < i \<Longrightarrow> \<exists>s' v. ps ! j = Settled s' (Resolved v)"
  shows "q_all t' ps = Settled s (Rejected r)"
proof -
  let ?runs = "reduce_groups st (Settled t (Resolved Undefined)) gs"
  from assms(1) ps have ps': "ps = map promise ?runs"
    by (simp add: resolveStatePermissionMap_nonempty)
  have len: "length ps = length gs" by (simp add: ps' length_reduce_groups)
  have "first_rejected ps = Some (s, r)"
  proof (rule first_rejected_at [OF i])
    show "\<exists>s' v. ps ! j = Settled s' (Resolved v)" if "j < i" for j by (rule before [OF that])
    show "s \<le> s'" if "i < j" "j < length ps" "ps ! j = Settled s' x" for j s' x
    proof -
      from that len have "promise (?runs ! j) = Settled s' x" by (simp add: ps' length_reduce_groups)
      from reduce_groups_monotone [OF _ _ this, of i] that len
      obtain s0 y where "promise (?runs ! i) = Settled s0 y" "s0 \<le> s'" by auto
      with i len show ?thesis by (simp add: ps' length_reduce_groups)
    qed
  qed
  then show ?thesis by (simp add: q_all_def)
qed


lemma q_any_all_rejected:
  assumes "\<forall>p\<in>set cs. \<exists>s r. p = Settled s (Rejected r)" "last_rejected cs = Some (u, r)"
  shows "q_any t cs = Settled u (Rejected r)"
proof -
  from assms(1) have "first_resolved cs = None" "Pending \<notin> set cs"
    by (auto simp: first_resolved_None)
  with assms(2) show ?thesis by (simp add: q_any_def)
qed



lemma resolved_values_all:
  "\<forall>p\<in>set ps. \<exists>s v. p = Settled s (Resolved v) \<Longrightarrow> ps ! 0 = Settled s0 (Resolved v0) \<Longrightarrow> ps \<noteq> [] \<Longrightarrow>
   index0 (Arr (resolved_values ps)) = v0"
  by (cases ps) auto

lemma q_all_all_resolved:
  assumes "\<forall>p\<in>set ps. \<exists>s v. p = Settled s (Resolved v)"
  shows "q_all t ps = Settled (latest t ps) (Resolved (Arr (resolved_values ps)))"
proof -
  from assms have "first_rejected ps = None" "Pending \<notin> set ps"
    by (auto simp: first_rejected_None)
  then show ?thesis by (simp add: q_all_def)
qed

section \<open>Facts about normalization\<close>

lemma isArray_backwards_compatible_inject [simp]: "isArray backwards_compatible_inject"
  by (simp add: backwards_compatible_inject_def)

lemma normalizeRedirection_heap:
  "fst (normalizeRedirection (key, v) (h, d)) r =
     (if v = Fn r \<and> \<not> isArray (h r) then backwards_compatible_inject else h r)"
  by (cases v) (auto simp: normalizeRedirection_def)

lemma fold_normalizeRedirection_heap:
  "fst (fold normalizeRedirection ps (h, d)) r =
     (if (\<exists>key. (key, Fn r) \<in> set ps) \<and> \<not> isArray (h r) then backwards_compatible_inject else h r)"
proof (induction ps arbitrary: h d)
  case Nil
  then show ?case by simp
next
  case (Cons p ps)
  obtain key v where p: "p = (key, v)" by (cases p)
  obtain h1 d1 where step: "normalizeRedirection (key, v) (h, d) = (h1, d1)"
    by (cases "normalizeRedirection (key, v) (h, d)")
  have h1: "h1 r = (if v = Fn r \<and> \<not> isArray (h r) then backwards_compatible_inject else h r)"
    using normalizeRedirection_heap [of key v h d r] step by simp
  show ?case
    using Cons.IH [of h1 d1] h1 by (auto simp: p step)
qed

lemma normalizeRedirection_other_key:
  "key' \<noteq> key \<Longrightarrow> map_of (snd (normalizeRedirection (key, v) (h, d))) key' = map_of d key'"
  by (simp add: normalizeRedirection_def update_conv')

lemma fold_normalizeRedirection_other_key:
  "key' \<notin> fst ` set ps \<Longrightarrow> map_of (snd (fold normalizeRedirection ps (h, d))) key' = map_of d key'"
proof (induction ps arbitrary: h d)
  case Nil
  then show ?case by simp
next
  case (Cons p ps)
  obtain key v where p: "p = (key, v)" by (cases p)
  obtain h1 d1 where step: "normalizeRedirection (key, v) (h, d) = (h1, d1)"
    by (cases "normalizeRedirection (key, v) (h, d)")
  from Cons.prems p have "key' \<noteq> key" "key' \<notin> fst ` set ps" by auto
  with Cons.IH [of h1 d1] normalizeRedirection_other_key [of key' key v h d] step p
  show ?case by simp
qed

lemma normalizeRedirection_function:
  "isFunction v \<Longrightarrow> map_of (snd (normalizeRedirection (key, v) (h, d))) key = Some (Supplied v)"
  by (simp add: normalizeRedirection_def update_conv')

lemma fold_normalizeRedirection_function:
  assumes "distinct (map fst ps)" "(key, v) \<in> set ps" "isFunction v"
  shows "map_of (snd (fold normalizeRedirection ps (h, d))) key = Some (Supplied v)"
  using assms
proof (induction ps arbitrary: h d)
  case Nil
  then show ?case by simp
next
  case (Cons p ps)
  obtain key0 v0 where p: "p = (key0, v0)" by (cases p)
  obtain h1 d1 where step: "normalizeRedirection (key0, v0) (h, d) = (h1, d1)"
    by (cases "normalizeRedirection (key0, v0) (h, d)")
  show ?case
  proof (cases "(key, v) = (key0, v0)")
    case True
    with Cons.prems p have "key \<notin> fst ` set ps" by auto
    from fold_normalizeRedirection_other_key [OF this, of h1 d1]
      normalizeRedirection_function [OF Cons.prems(3), of key h d] True step p
    show ?thesis by simp
  next
    case False
    with Cons.prems p have "(key, v) \<in> set ps" "distinct (map fst ps)" by auto
    from Cons.IH [OF this(2) this(1) Cons.prems(3), of h1 d1] step p show ?thesis by simp
  qed
qed

lemma map_of_fold_update:
  "map_of (fold (\<lambda>(k, v). AList.update k v) xs acc) = map_of acc ++ map_of (rev xs)"
proof (induction xs arbitrary: acc)
  case Nil
  then show ?case by simp
next
  case (Cons x xs)
  obtain k v where x: "x = (k, v)" by (cases x)
  show ?case
    by (auto simp: x Cons.IH update_conv' fun_eq_iff map_add_def split: option.splits)
qed


lemma isDefined_iff: "isDefined v \<longleftrightarrow> v \<noteq> Undefined"
  by (cases v) simp_all

lemma PermissionMap_Inr:
  assumes "PermissionMap env h permissionMap = Inr (h', m)"
    and "R = js_get (if truthy permissionMap then permissionMap else Obj []) ''redirectTo''"
  shows "normalizeRedirectToProperty h R = Inr (h', redirectTo m)"
  using assms by (auto simp: PermissionMap_def Let_def split: sum.splits prod.splits)

lemma normalizeRedirectToProperty_heap:
  assumes "normalizeRedirectToProperty h R = Inr (h', d)"
  shows "h' r =
     (if \<not> isArray (h r) \<and>
         (R = Fn r \<or> (\<exists>ps. R = Obj ps \<and> \<not> isInjectable h R \<and> js_get R ''state'' = Undefined
                          \<and> (\<exists>key. (key, Fn r) \<in> set ps)))
      then backwards_compatible_inject else h r)"
proof (cases R)
  case (Obj ps)
  show ?thesis
  proof (cases "isInjectable h R \<or> js_get R ''state'' \<noteq> Undefined")
    case True
    with assms Obj show ?thesis
      by (auto simp: normalizeRedirectToProperty_def normalizeFunctionRedirectionRule_def
          isObjectSingleRedirectionRule_def isDefined_iff split: if_splits)
  next
    case False
    with assms Obj have "fst (fold normalizeRedirection ps (h, [])) = h'"
      by (auto simp: normalizeRedirectToProperty_def normalizeObjectMultipleRedirectionRule_def
          isObjectSingleRedirectionRule_def isDefined_iff split: if_splits prod.splits)
    with fold_normalizeRedirection_heap [of ps h "[]" r] False Obj show ?thesis by auto
  qed
qed (use assms in \<open>auto simp: normalizeRedirectToProperty_def normalizeFunctionRedirectionRule_def
      split: if_splits\<close>)

lemma PermissionMap_unfold:
  assumes "R = js_get (if truthy permissionMap then permissionMap else Obj []) ''redirectTo''"
  shows "PermissionMap env h permissionMap =
     (case normalizeRedirectToProperty h R of
        Inl e \<Rightarrow> Inl e
      | Inr (h', r) \<Rightarrow>
          Inr (h', \<lparr>only = snd (normalizeOnlyAndExceptProperty env
                             (js_get (if truthy permissionMap then permissionMap else Obj []) ''only'')),
                    except = snd (normalizeOnlyAndExceptProperty env
                             (js_get (if truthy permissionMap then permissionMap else Obj []) ''except'')),
                    redirectTo = r\<rparr>))"
  by (simp add: PermissionMap_def Let_def assms)

lemma normalizeRedirectToProperty_no_default:
  assumes "isObject R" "\<not> isInjectable h R" "js_get R ''state'' = Undefined"
    "js_get R ''default'' = Undefined"
  shows "normalizeRedirectToProperty h R =
    Inl (ReferenceError ''When used redirectTo as object, property default must be defined'')"
  using assms
  by (cases R)
    (simp_all add: normalizeRedirectToProperty_def isObjectSingleRedirectionRule_def
      isObjectMultipleRedirectionRule_def)

lemma normalizeRedirectToProperty_string:
  "isString R \<Longrightarrow>
   normalizeRedirectToProperty h R = Inr (h, Dictionary [(''default'', ReturnState R)])"
  by (simp add: normalizeRedirectToProperty_def normalizeStringRedirectionRule_def)

lemma normalizeRedirectToProperty_single:
  assumes "isObject R" "\<not> isInjectable h R" "js_get R ''state'' \<noteq> Undefined"
  shows "normalizeRedirectToProperty h R = Inr (h, Dictionary [(''default'', ReturnObject R)])"
  using assms
  by (cases R)
    (simp_all add: normalizeRedirectToProperty_def isObjectSingleRedirectionRule_def
      normalizeObjectSingleRedirectionRule_def isDefined_iff)

lemma normalizeRedirectToProperty_callable:
  assumes "isInjectable h R \<or> isFunction R"
  shows "\<exists>h'. normalizeRedirectToProperty h R = Inr (h', Dictionary [(''default'', Supplied R)])"
proof -
  from assms have "\<not> isString R" by (cases R) auto
  with assms show ?thesis
    by (auto simp: normalizeRedirectToProperty_def normalizeFunctionRedirectionRule_def)
qed

lemma normalizeRedirectToProperty_dictionary:
  assumes "isObject R" "\<not> isInjectable h R" "js_get R ''state'' = Undefined"
    "js_get R ''default'' \<noteq> Undefined"
  shows "\<exists>h' d. normalizeRedirectToProperty h R = Inr (h', Dictionary d)"
  using assms
  by (cases R)
    (auto simp: normalizeRedirectToProperty_def isObjectSingleRedirectionRule_def
      isObjectMultipleRedirectionRule_def isDefined_iff split: prod.splits)

lemma map_of_angular_extend:
  "map_of (angular_extend [] [a, b]) = map_of (rev (own_entries a)) ++ map_of (rev (own_entries b))"
  by (simp add: angular_extend_def map_of_fold_update)

lemma resolveRedirectState_dictionary:
  assumes "redirectTo this = Dictionary d"
  shows "PermissionMap_resolveRedirectState env t this rejectedPermissionName =
     (case map_of d rejectedPermissionName of
        Some redirectState \<Rightarrow> resolveRedirectState env t redirectState rejectedPermissionName
      | None \<Rightarrow>
          (case map_of d ''default'' of
             Some redirectState \<Rightarrow> resolveRedirectState env t redirectState rejectedPermissionName
           | None \<Rightarrow> Inr (Settled t (Rejected Undefined))))"
  by (simp add: PermissionMap_resolveRedirectState_def assms split: option.splits)

section \<open>Properties of the authorization protocol\<close>

text \<open>
  C5. With empty \<open>only\<close> and empty \<open>except\<close>, authorization accepts: evaluating the empty
  sequence of groups is a single rejection with no name (\<open>undefined\<close>), so the deny phase
  falls through to the allow phase, and the empty \<open>only\<close> resolves at once, at the time
  authorization was asked for, whatever the stores and the redirection hold.
\<close>

theorem authorize_empty_accepts:
  "map promise (resolveStatePermissionMap st t []) = [Settled t (Rejected Undefined)]
   \<and> authorizeByPermissionMap st t \<lparr>only = [], except = [], redirectTo = r\<rparr> =
       Settled t (Resolved Undefined)"
  by (simp add: authorizeByPermissionMap_def authorizeStatePermissionMap_def
      resolveExceptStatePermissionMap_def resolveOnlyStatePermissionMap_def
      resolveStatePermissionMap_def q_all_def)



text \<open>
  C1, as stated, fails. With \<open>only = [["A"], ["B"]]\<close>, where \<open>A\<close> validates and \<open>B\<close> is
  not registered, the first group succeeds and yet authorization rejects, with \<open>B\<close>: the
  success of the first group does not end the evaluation. With \<open>only = [["C"], ["B"]]\<close>,
  neither name registered, every group fails and the failure reported is \<open>C\<close>, that of
  the first group, not that of the last.
\<close>

theorem first_group_success_not_enough_counterexample:
  "promise (resolveStatePermissionMap
         \<lparr>PermRoleStore = [''A'' \<mapsto> (\<lambda>t. After 0 (Resolved (Str ''A'')))],
          PermPermissionStore = Map.empty\<rparr> 0 [[''A''], [''B'']] ! 0)
       = Settled 0 (Resolved (Str ''A''))
   \<and> authorizeByPermissionMap
         \<lparr>PermRoleStore = [''A'' \<mapsto> (\<lambda>t. After 0 (Resolved (Str ''A'')))],
          PermPermissionStore = Map.empty\<rparr>
         0 \<lparr>only = [[''A''], [''B'']], except = [], redirectTo = Unchanged Undefined\<rparr>
       = Settled 0 (Rejected (Str ''B''))
   \<and> authorizeByPermissionMap
         \<lparr>PermRoleStore = [''A'' \<mapsto> (\<lambda>t. After 0 (Resolved (Str ''A'')))],
          PermPermissionStore = Map.empty\<rparr>
         0 \<lparr>only = [[''C''], [''B'']], except = [], redirectTo = Unchanged Undefined\<rparr>
       = Settled 0 (Rejected (Str ''C''))"
  by (simp add: authorizeByPermissionMap_def authorizeStatePermissionMap_def
      resolveExceptStatePermissionMap_def resolveOnlyStatePermissionMap_def q_all_def
      resolveStatePermissionMap_def evaluate_group_def resolvePropertyValidity_def
      resolvePrivilege_def validate_def q_any_def unwrap_def Let_def)

text \<open>
  C1, amended. The promises of the groups are joined by \<open>$q.all\<close>, in the deny phase and
  in the allow phase alike, and authorization decides by these joins. Deny phase, for a
  non-empty \<open>except\<close>: when every deny group succeeds authorization rejects, with the value
  of the first group; as soon as one deny group fails (the first that fails, \<open>s\<close> the time
  of its failure) the deny phase is over and authorization is what the allow phase,
  started at \<open>s\<close>, gives. Allow phase, for a non-empty \<open>only\<close>, the deny phase having
  fallen through at time \<open>t\<close>: authorization is the join of the groups of \<open>only\<close>; it
  accepts exactly when every group succeeds; it rejects as soon as one group fails, with
  the failure of the first failing group; no group is skipped, the next group being
  started when the previous one has settled, whether it succeeded or failed. In
  particular, when no name of the first group of \<open>only\<close> validates, authorization rejects
  with the failure of that first group that settled last.
\<close>

theorem every_group_must_succeed:
  assumes "eps = map promise (resolveStatePermissionMap st t0 (except m))"
    and "runs = resolveStatePermissionMap st t (only m)"
    and "ps = map promise runs"
    and "checks = map snd (resolvePropertyValidity st t (only m ! 0))"
  shows "(except m \<noteq> [] \<and> (\<forall>p\<in>set eps. \<exists>s v. p = Settled s (Resolved v)) \<longrightarrow>
            authorizeByPermissionMap st t0 m =
              Settled (latest t0 eps) (Rejected (index0 (Arr (resolved_values eps)))))
    \<and> (\<forall>i s r. except m \<noteq> [] \<and> i < length eps \<and> eps ! i = Settled s (Rejected r)
            \<and> (\<forall>j<i. \<exists>s' v. eps ! j = Settled s' (Resolved v))
          \<longrightarrow> authorizeByPermissionMap st t0 m = resolveOnlyStatePermissionMap st s m)
    \<and> (only m \<noteq> [] \<and> (\<exists>x. q_all t0 eps = Settled t (Rejected x)) \<longrightarrow>
          authorizeByPermissionMap st t0 m = q_all t ps
        \<and> ((\<exists>s vs. authorizeByPermissionMap st t0 m = Settled s (Resolved vs)) \<longleftrightarrow>
              (\<forall>p\<in>set ps. \<exists>s v. p = Settled s (Resolved v)))
        \<and> (\<forall>i s r. i < length ps \<and> ps ! i = Settled s (Rejected r)
                \<and> (\<forall>j<i. \<exists>s' v. ps ! j = Settled s' (Resolved v))
              \<longrightarrow> authorizeByPermissionMap st t0 m = Settled s (Rejected r))
        \<and> (\<forall>i s x. Suc i < length ps \<and> ps ! i = Settled s x \<longrightarrow>
              started (runs ! Suc i) = Some s)
        \<and> (\<forall>u r. (\<forall>p\<in>set checks. \<exists>s r. p = Settled s (Rejected r))
                \<and> last_rejected checks = Some (u, r)
              \<longrightarrow> authorizeByPermissionMap st t0 m = Settled u (Rejected r)))"
proof -
  note auth = authorizeByPermissionMap_def authorizeStatePermissionMap_def
    resolveExceptStatePermissionMap_def
  have deny_all: "authorizeByPermissionMap st t0 m =
      Settled (latest t0 eps) (Rejected (index0 (Arr (resolved_values eps))))"
    if "\<forall>p\<in>set eps. \<exists>s v. p = Settled s (Resolved v)"
    using q_all_all_resolved [OF that, of t0] by (simp add: auth assms(1))
  have deny_fail: "authorizeByPermissionMap st t0 m = resolveOnlyStatePermissionMap st s m"
    if ne: "except m \<noteq> []" and i: "i < length eps" "eps ! i = Settled s (Rejected r)"
      and before: "\<forall>j<i. \<exists>s' v. eps ! j = Settled s' (Resolved v)" for i s r
  proof -
    have "q_all t0 eps = Settled s (Rejected r)"
      using ne assms(1) i
    proof (rule q_all_first_failure)
      show "\<exists>s' v. eps ! j = Settled s' (Resolved v)" if "j < i" for j
        using before that by blast
    qed
    then show ?thesis by (simp add: auth assms(1))
  qed
  have allow: "authorizeByPermissionMap st t0 m = q_all t ps
        \<and> ((\<exists>s vs. authorizeByPermissionMap st t0 m = Settled s (Resolved vs)) \<longleftrightarrow>
              (\<forall>p\<in>set ps. \<exists>s v. p = Settled s (Resolved v)))
        \<and> (\<forall>i s r. i < length ps \<and> ps ! i = Settled s (Rejected r)
                \<and> (\<forall>j<i. \<exists>s' v. ps ! j = Settled s' (Resolved v))
              \<longrightarrow> authorizeByPermissionMap st t0 m = Settled s (Rejected r))
        \<and> (\<forall>i s x. Suc i < length ps \<and> ps ! i = Settled s x \<longrightarrow>
              started (runs ! Suc i) = Some s)
        \<and> (\<forall>u r. (\<forall>p\<in>set checks. \<exists>s r. p = Settled s (Rejected r))
                \<and> last_rejected checks = Some (u, r)
              \<longrightarrow> authorizeByPermissionMap st t0 m = Settled u (Rejected r))"
    if ne: "only m \<noteq> []" and fell: "q_all t0 eps = Settled t (Rejected x)" for x
  proof -
    let ?start = "Settled t (Resolved Undefined)"
    have runs: "runs = reduce_groups st ?start (only m)"
      using ne assms(2) by (simp add: resolveStatePermissionMap_nonempty)
    have len: "length ps = length (only m)"
      by (simp add: assms(3) runs length_reduce_groups)
    have ps: "ps = map promise (resolveStatePermissionMap st t (only m))"
      by (simp add: assms(2,3))
    have eq: "authorizeByPermissionMap st t0 m = q_all t ps"
      using ne fell by (simp add: auth resolveOnlyStatePermissionMap_def assms(1) ps)
    have all: "(\<exists>s vs. authorizeByPermissionMap st t0 m = Settled s (Resolved vs)) \<longleftrightarrow>
        (\<forall>p\<in>set ps. \<exists>s v. p = Settled s (Resolved v))"
      unfolding eq by (rule q_all_resolved_iff)
    have fail: "authorizeByPermissionMap st t0 m = Settled s (Rejected r)"
      if "i < length ps" "ps ! i = Settled s (Rejected r)"
        "\<forall>j<i. \<exists>s' v. ps ! j = Settled s' (Resolved v)" for i s r
      unfolding eq using ne ps that(1,2)
    proof (rule q_all_first_failure)
      show "\<exists>s' v. ps ! j = Settled s' (Resolved v)" if "j < i" for j
        using \<open>\<forall>j<i. \<exists>s' v. ps ! j = Settled s' (Resolved v)\<close> that by blast
    qed
    have next_group: "started (runs ! Suc i) = Some s"
      if "Suc i < length ps" "ps ! i = Settled s x" for i s x
    proof -
      from that len have "Suc i < length (only m)" by simp
      then have "runs ! Suc i = evaluate_group st (promise (runs ! i)) (only m ! Suc i)"
        by (simp add: runs reduce_groups_Suc)
      moreover from that have "promise (runs ! i) = Settled s x"
        by (simp add: assms(3))
      ultimately show ?thesis by (simp add: evaluate_group_started)
    qed
    have particular: "authorizeByPermissionMap st t0 m = Settled u (Rejected r)"
      if none: "\<forall>p\<in>set checks. \<exists>s r. p = Settled s (Rejected r)"
        and last: "last_rejected checks = Some (u, r)" for u r
    proof -
      have "q_any t checks = Settled u (Rejected r)"
        using none last by (rule q_any_all_rejected)
      then have "promise (runs ! 0) = Settled u (Rejected r)"
        using ne by (simp add: runs reduce_groups_0 evaluate_group_def Let_def assms(4))
      then have p0: "ps ! 0 = Settled u (Rejected r)"
        using ne len by (simp add: assms(3))
      show ?thesis
        by (rule fail [of 0]) (use ne len p0 in auto)
    qed
    from eq all fail next_group particular show ?thesis by (intro conjI allI impI) blast+
  qed
  have A: "only m \<noteq> [] \<and> (\<exists>x. q_all t0 eps = Settled t (Rejected x)) \<longrightarrow>
          authorizeByPermissionMap st t0 m = q_all t ps
        \<and> ((\<exists>s vs. authorizeByPermissionMap st t0 m = Settled s (Resolved vs)) \<longleftrightarrow>
              (\<forall>p\<in>set ps. \<exists>s v. p = Settled s (Resolved v)))
        \<and> (\<forall>i s r. i < length ps \<and> ps ! i = Settled s (Rejected r)
                \<and> (\<forall>j<i. \<exists>s' v. ps ! j = Settled s' (Resolved v))
              \<longrightarrow> authorizeByPermissionMap st t0 m = Settled s (Rejected r))
        \<and> (\<forall>i s x. Suc i < length ps \<and> ps ! i = Settled s x \<longrightarrow>
              started (runs ! Suc i) = Some s)
        \<and> (\<forall>u r. (\<forall>p\<in>set checks. \<exists>s r. p = Settled s (Rejected r))
                \<and> last_rejected checks = Some (u, r)
              \<longrightarrow> authorizeByPermissionMap st t0 m = Settled u (Rejected r))"
  proof
    assume "only m \<noteq> [] \<and> (\<exists>x. q_all t0 eps = Settled t (Rejected x))"
    then obtain x where "only m \<noteq> []" "q_all t0 eps = Settled t (Rejected x)" by blast
    then show "authorizeByPermissionMap st t0 m = q_all t ps
        \<and> ((\<exists>s vs. authorizeByPermissionMap st t0 m = Settled s (Resolved vs)) \<longleftrightarrow>
              (\<forall>p\<in>set ps. \<exists>s v. p = Settled s (Resolved v)))
        \<and> (\<forall>i s r. i < length ps \<and> ps ! i = Settled s (Rejected r)
                \<and> (\<forall>j<i. \<exists>s' v. ps ! j = Settled s' (Resolved v))
              \<longrightarrow> authorizeByPermissionMap st t0 m = Settled s (Rejected r))
        \<and> (\<forall>i s x. Suc i < length ps \<and> ps ! i = Settled s x \<longrightarrow>
              started (runs ! Suc i) = Some s)
        \<and> (\<forall>u r. (\<forall>p\<in>set checks. \<exists>s r. p = Settled s (Rejected r))
                \<and> last_rejected checks = Some (u, r)
              \<longrightarrow> authorizeByPermissionMap st t0 m = Settled u (Rejected r))"
      by (rule allow)
  qed
  have D1: "except m \<noteq> [] \<and> (\<forall>p\<in>set eps. \<exists>s v. p = Settled s (Resolved v)) \<longrightarrow>
      authorizeByPermissionMap st t0 m =
        Settled (latest t0 eps) (Rejected (index0 (Arr (resolved_values eps))))"
    using deny_all by blast
  have D2: "\<forall>i s r. except m \<noteq> [] \<and> i < length eps \<and> eps ! i = Settled s (Rejected r)
        \<and> (\<forall>j<i. \<exists>s' v. eps ! j = Settled s' (Resolved v))
      \<longrightarrow> authorizeByPermissionMap st t0 m = resolveOnlyStatePermissionMap st s m"
    using deny_fail by blast
  from D1 D2 A show ?thesis by (intro conjI)
qed

theorem every_group_must_succeed_witness:
  "authorizeByPermissionMap
         \<lparr>PermRoleStore = [''A'' \<mapsto> (\<lambda>t. After 1 (Resolved (Str ''A'')))],
          PermPermissionStore = Map.empty\<rparr>
         0 \<lparr>only = [[''X'', ''Y''], [''A'']], except = [], redirectTo = Unchanged Undefined\<rparr> = Settled 0 (Rejected (Str ''Y''))
   \<and> map started (resolveStatePermissionMap
         \<lparr>PermRoleStore = [''A'' \<mapsto> (\<lambda>t. After 1 (Resolved (Str ''A'')))],
          PermPermissionStore = Map.empty\<rparr> 0 [[''X'', ''Y''], [''A'']]) = [Some 0, Some 0]
   \<and> authorizeByPermissionMap
         \<lparr>PermRoleStore = [''A'' \<mapsto> (\<lambda>t. After 1 (Resolved (Str ''A'')))],
          PermPermissionStore = Map.empty\<rparr>
         0 \<lparr>only = [[''A''], [''A'']], except = [], redirectTo = Unchanged Undefined\<rparr> = Settled 2 (Resolved (Arr [Str ''A'', Str ''A'']))
   \<and> authorizeByPermissionMap
         \<lparr>PermRoleStore = [''A'' \<mapsto> (\<lambda>t. After 1 (Resolved (Str ''A'')))],
          PermPermissionStore = Map.empty\<rparr>
         0 \<lparr>only = [], except = [[''A''], [''X'']], redirectTo = Unchanged Undefined\<rparr> = Settled 1 (Resolved Undefined)
   \<and> authorizeByPermissionMap
         \<lparr>PermRoleStore = [''A'' \<mapsto> (\<lambda>t. After 1 (Resolved (Str ''A'')))],
          PermPermissionStore = Map.empty\<rparr>
         0 \<lparr>only = [[''A'']], except = [[''A'']], redirectTo = Unchanged Undefined\<rparr> = Settled 1 (Rejected (Str ''A''))"
  using
    every_group_must_succeed
      [where st = "\<lparr>PermRoleStore = [''A'' \<mapsto> (\<lambda>t. After 1 (Resolved (Str ''A'')))],
          PermPermissionStore = Map.empty\<rparr>"
         and m = "\<lparr>only = [[''X'', ''Y''], [''A'']], except = [], redirectTo = Unchanged Undefined\<rparr>" and ?t0.0 = 0 and t = 0
         and eps = "map promise (resolveStatePermissionMap
         \<lparr>PermRoleStore = [''A'' \<mapsto> (\<lambda>t. After 1 (Resolved (Str ''A'')))],
          PermPermissionStore = Map.empty\<rparr> 0 [])"
         and runs = "resolveStatePermissionMap
         \<lparr>PermRoleStore = [''A'' \<mapsto> (\<lambda>t. After 1 (Resolved (Str ''A'')))],
          PermPermissionStore = Map.empty\<rparr> 0 [[''X'', ''Y''], [''A'']]"
         and ps = "map promise (resolveStatePermissionMap
         \<lparr>PermRoleStore = [''A'' \<mapsto> (\<lambda>t. After 1 (Resolved (Str ''A'')))],
          PermPermissionStore = Map.empty\<rparr> 0 [[''X'', ''Y''], [''A'']])"
         and checks = "map snd (resolvePropertyValidity
         \<lparr>PermRoleStore = [''A'' \<mapsto> (\<lambda>t. After 1 (Resolved (Str ''A'')))],
          PermPermissionStore = Map.empty\<rparr> 0 ([[''X'', ''Y''], [''A'']] ! 0))"]
    every_group_must_succeed
      [where st = "\<lparr>PermRoleStore = [''A'' \<mapsto> (\<lambda>t. After 1 (Resolved (Str ''A'')))],
          PermPermissionStore = Map.empty\<rparr>"
         and m = "\<lparr>only = [[''A''], [''A'']], except = [], redirectTo = Unchanged Undefined\<rparr>" and ?t0.0 = 0 and t = 0
         and eps = "map promise (resolveStatePermissionMap
         \<lparr>PermRoleStore = [''A'' \<mapsto> (\<lambda>t. After 1 (Resolved (Str ''A'')))],
          PermPermissionStore = Map.empty\<rparr> 0 [])"
         and runs = "resolveStatePermissionMap
         \<lparr>PermRoleStore = [''A'' \<mapsto> (\<lambda>t. After 1 (Resolved (Str ''A'')))],
          PermPermissionStore = Map.empty\<rparr> 0 [[''A''], [''A'']]"
         and ps = "map promise (resolveStatePermissionMap
         \<lparr>PermRoleStore = [''A'' \<mapsto> (\<lambda>t. After 1 (Resolved (Str ''A'')))],
          PermPermissionStore = Map.empty\<rparr> 0 [[''A''], [''A'']])"
         and checks = "map snd (resolvePropertyValidity
         \<lparr>PermRoleStore = [''A'' \<mapsto> (\<lambda>t. After 1 (Resolved (Str ''A'')))],
          PermPermissionStore = Map.empty\<rparr> 0 ([[''A''], [''A'']] ! 0))"]
    every_group_must_succeed
      [where st = "\<lparr>PermRoleStore = [''A'' \<mapsto> (\<lambda>t. After 1 (Resolved (Str ''A'')))],
          PermPermissionStore = Map.empty\<rparr>"
         and m = "\<lparr>only = [], except = [[''A''], [''X'']], redirectTo = Unchanged Undefined\<rparr>" and ?t0.0 = 0 and t = 1
         and eps = "map promise (resolveStatePermissionMap
         \<lparr>PermRoleStore = [''A'' \<mapsto> (\<lambda>t. After 1 (Resolved (Str ''A'')))],
          PermPermissionStore = Map.empty\<rparr> 0 [[''A''], [''X'']])"
         and runs = "resolveStatePermissionMap
         \<lparr>PermRoleStore = [''A'' \<mapsto> (\<lambda>t. After 1 (Resolved (Str ''A'')))],
          PermPermissionStore = Map.empty\<rparr> 1 []"
         and ps = "map promise (resolveStatePermissionMap
         \<lparr>PermRoleStore = [''A'' \<mapsto> (\<lambda>t. After 1 (Resolved (Str ''A'')))],
          PermPermissionStore = Map.empty\<rparr> 1 [])"
         and checks = "map snd (resolvePropertyValidity
         \<lparr>PermRoleStore = [''A'' \<mapsto> (\<lambda>t. After 1 (Resolved (Str ''A'')))],
          PermPermissionStore = Map.empty\<rparr> 1 ([] ! 0))"]
    every_group_must_succeed
      [where st = "\<lparr>PermRoleStore = [''A'' \<mapsto> (\<lambda>t. After 1 (Resolved (Str ''A'')))],
          PermPermissionStore = Map.empty\<rparr>"
         and m = "\<lparr>only = [[''A'']], except = [[''A'']], redirectTo = Unchanged Undefined\<rparr>" and ?t0.0 = 0 and t = 0
         and eps = "map promise (resolveStatePermissionMap
         \<lparr>PermRoleStore = [''A'' \<mapsto> (\<lambda>t. After 1 (Resolved (Str ''A'')))],
          PermPermissionStore = Map.empty\<rparr> 0 [[''A'']])"
         and runs = "resolveStatePermissionMap
         \<lparr>PermRoleStore = [''A'' \<mapsto> (\<lambda>t. After 1 (Resolved (Str ''A'')))],
          PermPermissionStore = Map.empty\<rparr> 0 [[''A'']]"
         and ps = "map promise (resolveStatePermissionMap
         \<lparr>PermRoleStore = [''A'' \<mapsto> (\<lambda>t. After 1 (Resolved (Str ''A'')))],
          PermPermissionStore = Map.empty\<rparr> 0 [[''A'']])"
         and checks = "map snd (resolvePropertyValidity
         \<lparr>PermRoleStore = [''A'' \<mapsto> (\<lambda>t. After 1 (Resolved (Str ''A'')))],
          PermPermissionStore = Map.empty\<rparr> 0 ([[''A'']] ! 0))"]
  by (simp add: authorizeByPermissionMap_def authorizeStatePermissionMap_def
      resolveExceptStatePermissionMap_def resolveOnlyStatePermissionMap_def q_all_def
      resolveStatePermissionMap_def evaluate_group_def resolvePropertyValidity_def
      resolvePrivilege_def validate_def q_any_def unwrap_def Let_def)

text \<open>
  C2, as stated, fails. With \<open>except = [["A"], ["B"]]\<close> and an empty \<open>only\<close>, where \<open>A\<close>
  validates and \<open>B\<close> is not registered, \<open>except\<close> contains a privilege that validates and
  yet authorization accepts: the second deny group failed, so the deny phase fell through.
\<close>

theorem deny_needs_every_group_counterexample:
  "snd (resolvePrivilege
         \<lparr>PermRoleStore = [''A'' \<mapsto> (\<lambda>t. After 0 (Resolved (Str ''A'')))],
          PermPermissionStore = Map.empty\<rparr> 0 ''A'') = Settled 0 (Resolved (Str ''A''))
   \<and> authorizeByPermissionMap
         \<lparr>PermRoleStore = [''A'' \<mapsto> (\<lambda>t. After 0 (Resolved (Str ''A'')))],
          PermPermissionStore = Map.empty\<rparr>
         0 \<lparr>only = [], except = [[''A''], [''B'']], redirectTo = Unchanged Undefined\<rparr>
       = Settled 0 (Resolved Undefined)"
  by (simp add: authorizeByPermissionMap_def authorizeStatePermissionMap_def
      resolveExceptStatePermissionMap_def resolveOnlyStatePermissionMap_def q_all_def
      resolveStatePermissionMap_def evaluate_group_def resolvePropertyValidity_def
      resolvePrivilege_def validate_def q_any_def unwrap_def Let_def)

text \<open>
  C2, amended. The deny phase runs first, and when every group of a non-empty \<open>except\<close>
  has a privilege that validates, authorization rejects whatever \<open>only\<close> contains, without
  entering the allow phase. The value it rejects with is the one the first deny group
  resolved with: the payload of a validated privilege of that group (its first element,
  should the payload be an array).
\<close>

theorem deny_when_every_except_group_matches:
  assumes "except m \<noteq> []"
    and "\<forall>p\<in>set (map promise (resolveStatePermissionMap st t (except m))).
           \<exists>s v. p = Settled s (Resolved v)"
  shows "\<exists>s0 s v w.
           promise (resolveStatePermissionMap st t (except m) ! 0) = Settled s0 (Resolved v)
         \<and> Settled s0 (Resolved w) \<in> set (map snd (resolvePropertyValidity st t (except m ! 0)))
         \<and> v = unwrap w
         \<and> (\<forall>x. authorizeByPermissionMap st t (m\<lparr>only := x\<rparr>) = Settled s (Rejected v))"
proof -
  let ?runs = "resolveStatePermissionMap st t (except m)"
  let ?ps = "map promise ?runs"
  have runs: "?runs = reduce_groups st (Settled t (Resolved Undefined)) (except m)"
    using assms(1) by (rule resolveStatePermissionMap_nonempty)
  have "length ?runs = length (except m)" by (simp add: runs length_reduce_groups)
  with assms(1) have ne: "?ps \<noteq> []" by auto
  then have "?ps ! 0 \<in> set ?ps" by (intro nth_mem) (simp del: set_map)
  with assms(2) obtain s0 v where p0: "?ps ! 0 = Settled s0 (Resolved v)" by blast
  have first: "promise (?runs ! 0) = Settled s0 (Resolved v)"
    using p0 ne by (simp add: nth_map)
  have none: "first_rejected ?ps = None" and np: "Pending \<notin> set ?ps"
    using assms(2) by (auto simp: first_rejected_None)
  have qall: "q_all t ?ps = Settled (latest t ?ps) (Resolved (Arr (resolved_values ?ps)))"
    using none np by (simp add: q_all_def)
  have v: "index0 (Arr (resolved_values ?ps)) = v"
    using assms(2) p0 ne by (rule resolved_values_all)
  have auth: "authorizeByPermissionMap st t (m\<lparr>only := x\<rparr>) = Settled (latest t ?ps) (Rejected v)" for x
    using qall v
    by (simp add: authorizeByPermissionMap_def authorizeStatePermissionMap_def
        resolveExceptStatePermissionMap_def)
  from first runs assms(1)
  have "then_unwrap (q_any t (map snd (resolvePropertyValidity st t (except m ! 0)))) = Settled s0 (Resolved v)"
    by (simp add: reduce_groups_0 evaluate_group_def Let_def)
  then obtain w where w: "q_any t (map snd (resolvePropertyValidity st t (except m ! 0))) = Settled s0 (Resolved w)"
      and vw: "v = unwrap w"
    by (cases "q_any t (map snd (resolvePropertyValidity st t (except m ! 0)))" rule: then_unwrap.cases) auto
  from w have "Settled s0 (Resolved w) \<in> set (map snd (resolvePropertyValidity st t (except m ! 0)))"
    by (auto simp: q_any_def split: option.splits if_splits dest!: first_resolved_mem)
  with first vw auth show ?thesis by blast
qed

theorem deny_when_every_except_group_matches_witness:
  "except \<lparr>only = [[''Z'']], except = [[''A''], [''B'']], redirectTo = Unchanged Undefined\<rparr> \<noteq> []
   \<and> map promise (resolveStatePermissionMap
         \<lparr>PermRoleStore = [''A'' \<mapsto> (\<lambda>t. After 1 (Resolved (Str ''A'')))],
          PermPermissionStore = [''B'' \<mapsto> (\<lambda>t. After 2 (Resolved (Str ''B'')))]\<rparr>
         0 [[''A''], [''B'']]) = [Settled 1 (Resolved (Str ''A'')), Settled 3 (Resolved (Str ''B''))]
   \<and> authorizeByPermissionMap
         \<lparr>PermRoleStore = [''A'' \<mapsto> (\<lambda>t. After 1 (Resolved (Str ''A'')))],
          PermPermissionStore = [''B'' \<mapsto> (\<lambda>t. After 2 (Resolved (Str ''B'')))]\<rparr>
         0 \<lparr>only = [[''Z'']], except = [[''A''], [''B'']], redirectTo = Unchanged Undefined\<rparr>
       = Settled 3 (Rejected (Str ''A''))"
  using deny_when_every_except_group_matches
    [of "\<lparr>only = [[''Z'']], except = [[''A''], [''B'']], redirectTo = Unchanged Undefined\<rparr>"
        "\<lparr>PermRoleStore = [''A'' \<mapsto> (\<lambda>t. After 1 (Resolved (Str ''A'')))],
          PermPermissionStore = [''B'' \<mapsto> (\<lambda>t. After 2 (Resolved (Str ''B'')))]\<rparr>" 0]
  by (simp add: authorizeByPermissionMap_def authorizeStatePermissionMap_def
      resolveExceptStatePermissionMap_def q_all_def
      resolveStatePermissionMap_def evaluate_group_def resolvePropertyValidity_def
      resolvePrivilege_def validate_def q_any_def unwrap_def Let_def)

text \<open>
  C9. The checks of a group start exactly when the promise of the group before it
  settles, whether resolved or rejected, and never if that promise never settles; the
  first group starts at the time of the call. So when the checks of group \<open>j\<close> start, at
  time \<open>u\<close>, every earlier group \<open>i\<close> has already settled, at a time no later than \<open>u\<close>;
  and the checks of group \<open>j\<close> are all made at \<open>u\<close>. How the validations inside a group
  settle plays no part in this order.
\<close>

theorem groups_evaluated_in_sequence:
  assumes "privilegesNames \<noteq> []" and "i < j" and "j < length privilegesNames"
    and "runs = resolveStatePermissionMap st t privilegesNames"
  shows "length runs = length privilegesNames
    \<and> started (runs ! 0) = Some t
    \<and> started (runs ! j) = (case promise (runs ! (j - 1)) of Pending \<Rightarrow> None | Settled s x \<Rightarrow> Some s)
    \<and> (\<forall>u. started (runs ! j) = Some u \<longrightarrow>
          (\<exists>s x. promise (runs ! i) = Settled s x \<and> s \<le> u)
          \<and> events (runs ! j) = concat (map fst (resolvePropertyValidity st u (privilegesNames ! j)))
          \<and> promise (runs ! j) =
              then_unwrap (q_any u (map snd (resolvePropertyValidity st u (privilegesNames ! j)))))
    \<and> (promise (runs ! i) = Pending \<longrightarrow>
          started (runs ! j) = None \<and> events (runs ! j) = [] \<and> promise (runs ! j) = Pending)"
proof -
  let ?start = "Settled t (Resolved Undefined)"
  from assms(1,4) have runs: "runs = reduce_groups st ?start privilegesNames"
    by (simp add: resolveStatePermissionMap_nonempty)
  obtain k where j: "j = Suc k" and ik: "i \<le> k" using assms(2) by (cases j) auto
  have len: "length runs = length privilegesNames"
    by (simp add: runs length_reduce_groups)
  have first: "started (runs ! 0) = Some t"
    using assms(1) by (simp add: runs reduce_groups_0 evaluate_group_started)
  have step: "runs ! j = evaluate_group st (promise (runs ! k)) (privilegesNames ! j)"
    using assms(3) by (simp add: runs j reduce_groups_Suc)
  have start_j: "started (runs ! j) = (case promise (runs ! (j - 1)) of Pending \<Rightarrow> None | Settled s x \<Rightarrow> Some s)"
    by (simp add: step evaluate_group_started) (simp add: j)
  have after: "(\<exists>s x. promise (runs ! i) = Settled s x \<and> s \<le> u)
      \<and> events (runs ! j) = concat (map fst (resolvePropertyValidity st u (privilegesNames ! j)))
      \<and> promise (runs ! j) = then_unwrap (q_any u (map snd (resolvePropertyValidity st u (privilegesNames ! j))))"
    if "started (runs ! j) = Some u" for u
  proof -
    from that obtain y where k: "promise (runs ! k) = Settled u y"
      by (auto simp: step evaluate_group_started split: promise.splits)
    have "k < length privilegesNames" using assms(3) j by simp
    from reduce_groups_monotone [OF ik this k [unfolded runs]]
    have "\<exists>s x. promise (runs ! i) = Settled s x \<and> s \<le> u" by (simp add: runs)
    then show ?thesis by (simp add: step k evaluate_group_def Let_def)
  qed
  have never: "started (runs ! j) = None \<and> events (runs ! j) = [] \<and> promise (runs ! j) = Pending"
    if "promise (runs ! i) = Pending"
  proof -
    have "promise (runs ! j) = Pending"
    proof (rule ccontr)
      assume "promise (runs ! j) \<noteq> Pending"
      then obtain s' x where "promise (reduce_groups st ?start privilegesNames ! j) = Settled s' x"
        by (cases "promise (runs ! j)") (auto simp: runs)
      from reduce_groups_monotone [OF _ assms(3) this, of i] assms(2) that show False
        by (auto simp: runs)
    qed
    moreover have "promise (runs ! k) = Pending"
    proof (rule ccontr)
      assume "promise (runs ! k) \<noteq> Pending"
      then obtain s' x where "promise (reduce_groups st ?start privilegesNames ! k) = Settled s' x"
        by (cases "promise (runs ! k)") (auto simp: runs)
      from reduce_groups_monotone [OF ik _ this] assms(3) j that show False
        by (auto simp: runs)
    qed
    ultimately show ?thesis by (simp add: step evaluate_group_def)
  qed
  from len first start_j after never show ?thesis by blast
qed

theorem groups_evaluated_in_sequence_witness:
  "[[''A''], [''B'']] \<noteq> [] \<and> (0::nat) < 1 \<and> 1 < length [[''A''], [''B'']]
   \<and> map started (resolveStatePermissionMap
         \<lparr>PermRoleStore = [''A'' \<mapsto> (\<lambda>t. After 5 (Rejected (Str ''A'')))],
          PermPermissionStore = [''B'' \<mapsto> (\<lambda>t. After 2 (Resolved (Str ''B'')))]\<rparr>
         0 [[''A''], [''B'']]) = [Some 0, Some 5]
   \<and> map promise (resolveStatePermissionMap
         \<lparr>PermRoleStore = [''A'' \<mapsto> (\<lambda>t. After 5 (Rejected (Str ''A'')))],
          PermPermissionStore = [''B'' \<mapsto> (\<lambda>t. After 2 (Resolved (Str ''B'')))]\<rparr>
         0 [[''A''], [''B'']]) = [Settled 5 (Rejected (Str ''A'')), Settled 7 (Resolved (Str ''B''))]
   \<and> resolveStatePermissionMap
         \<lparr>PermRoleStore = [''A'' \<mapsto> (\<lambda>t. Never)],
          PermPermissionStore = [''B'' \<mapsto> (\<lambda>t. After 2 (Resolved (Str ''B'')))]\<rparr>
         0 [[''A''], [''B'']]
       = [\<lparr>started = Some 0,
           events = [HasRoleDefinition ''A'', GetRoleDefinition ''A'', ValidateRole ''A''],
           promise = Pending\<rparr>,
          \<lparr>started = None, events = [], promise = Pending\<rparr>]"
  using groups_evaluated_in_sequence
    [of "[[''A''], [''B'']]" 0 1
        "resolveStatePermissionMap
         \<lparr>PermRoleStore = [''A'' \<mapsto> (\<lambda>t. After 5 (Rejected (Str ''A'')))],
          PermPermissionStore = [''B'' \<mapsto> (\<lambda>t. After 2 (Resolved (Str ''B'')))]\<rparr>
         0 [[''A''], [''B'']]"
        "\<lparr>PermRoleStore = [''A'' \<mapsto> (\<lambda>t. After 5 (Rejected (Str ''A'')))],
          PermPermissionStore = [''B'' \<mapsto> (\<lambda>t. After 2 (Resolved (Str ''B'')))]\<rparr>" 0]
    groups_evaluated_in_sequence
    [of "[[''A''], [''B'']]" 0 1
        "resolveStatePermissionMap
         \<lparr>PermRoleStore = [''A'' \<mapsto> (\<lambda>t. Never)],
          PermPermissionStore = [''B'' \<mapsto> (\<lambda>t. After 2 (Resolved (Str ''B'')))]\<rparr>
         0 [[''A''], [''B'']]"
        "\<lparr>PermRoleStore = [''A'' \<mapsto> (\<lambda>t. Never)],
          PermPermissionStore = [''B'' \<mapsto> (\<lambda>t. After 2 (Resolved (Str ''B'')))]\<rparr>" 0]
  by (simp add: resolveStatePermissionMap_def evaluate_group_def resolvePropertyValidity_def
      resolvePrivilege_def validate_def q_any_def unwrap_def Let_def)

section \<open>Properties of the construction of a map\<close>

text \<open>
  C3. The claim is right about a map that has a dictionary (\<open>resolveRedirectState_dictionary\<close>
  above: the entry of the rejected name, else the \<open>default\<close> entry, else a rejection). It
  fails for a map built without \<open>redirectTo\<close>: normalization returns \<open>undefined\<close>, not an
  empty dictionary, and reading \<open>this.redirectTo[rejectedPermissionName]\<close> throws a
  \<open>TypeError\<close> before the guard that would reject is reached. The same holds for a
  \<open>StatePermissionMap\<close> none of whose states gives a \<open>redirectTo\<close>.
\<close>

theorem resolveRedirectState_without_redirectTo_throws:
  "PermissionMap env h (Obj [(''only'', Str ''admin'')])
     = Inr (h, \<lparr>only = Arr [Str ''admin''], except = Arr [], redirectTo = Unchanged Undefined\<rparr>)
   \<and> PermissionMap_resolveRedirectState env t
       \<lparr>only = Arr [Str ''admin''], except = Arr [], redirectTo = Unchanged Undefined\<rparr> ''admin''
     = Inl (TypeError ''Cannot read property of undefined'')
   \<and> StatePermissionMap env h [Obj [(''data'', Obj [(''permissions'', Obj [(''only'', Str ''admin'')])])]]
     = Inr (h, \<lparr>only = [Arr [Str ''admin'']], except = [], redirectTo = Unchanged Undefined\<rparr>)
   \<and> PermissionMap_resolveRedirectState env t
       \<lparr>only = [Arr [Str ''admin'']], except = [], redirectTo = Unchanged Undefined\<rparr> ''admin''
     = Inl (TypeError ''Cannot read property of undefined'')"
  by (simp add: StatePermissionMap_def areSetStatePermissions_def PermissionMap_def
      normalizeOnlyAndExceptProperty_def normalizeRedirectToProperty_def
      extendPermissionMap_def PermissionMap_resolveRedirectState_def)

text \<open>
  C4. What a callable returns is handed back as it is, against the function's own
  description (it converts the property into an array of names): for a callable returning
  the string \<open>admin\<close> the result is that string, while the string itself normalizes to the
  array holding it. A \<open>StatePermissionMap\<close> then takes the bare string for a group; and
  for a callable returning \<open>undefined\<close> its constructor throws on reading \<open>length\<close>.
\<close>

theorem callable_result_not_normalized:
  "snd (normalizeOnlyAndExceptProperty
          \<lparr>PermTransitionProperties = Obj [], call = (\<lambda>f ctx. Str ''admin''), arity = (\<lambda>f. 0),
           injector_invoke = (\<lambda>f name ctx. Returns Undefined)\<rparr> (Fn 0)) = Str ''admin''
   \<and> snd (normalizeOnlyAndExceptProperty
          \<lparr>PermTransitionProperties = Obj [], call = (\<lambda>f ctx. Str ''admin''), arity = (\<lambda>f. 0),
           injector_invoke = (\<lambda>f name ctx. Returns Undefined)\<rparr> (Str ''admin''))
       = Arr [Str ''admin'']
   \<and> StatePermissionMap
          \<lparr>PermTransitionProperties = Obj [], call = (\<lambda>f ctx. Str ''admin''), arity = (\<lambda>f. 0),
           injector_invoke = (\<lambda>f name ctx. Returns Undefined)\<rparr> h
          [Obj [(''data'', Obj [(''permissions'', Obj [(''only'', Fn 0)])])]]
       = Inr (h, \<lparr>only = [Str ''admin''], except = [], redirectTo = Unchanged Undefined\<rparr>)
   \<and> StatePermissionMap
          \<lparr>PermTransitionProperties = Obj [], call = (\<lambda>f ctx. Undefined), arity = (\<lambda>f. 0),
           injector_invoke = (\<lambda>f name ctx. Returns Undefined)\<rparr> h
          [Obj [(''data'', Obj [(''permissions'', Obj [(''only'', Fn 0)])])]]
       = Inl (TypeError ''Cannot read property length of undefined'')"
  by (simp add: StatePermissionMap_def areSetStatePermissions_def PermissionMap_def
      normalizeOnlyAndExceptProperty_def normalizeRedirectToProperty_def
      extendPermissionMap_def)

text \<open>
  The branches of \<open>normalizeOnlyAndExceptProperty\<close>: a string becomes the one-element
  array holding it; an array is returned as it is; a function is called exactly once,
  with the transition context; anything else, an absent input among it, becomes the empty
  array, and no function is called.
\<close>

lemma normalizeOnlyAndExceptProperty_shapes:
  "normalizeOnlyAndExceptProperty env (Str s) = ([], Arr [Str s])
   \<and> normalizeOnlyAndExceptProperty env (Arr xs) = ([], Arr xs)
   \<and> normalizeOnlyAndExceptProperty env (Fn f) =
        ([(f, PermTransitionProperties env)], call env f (PermTransitionProperties env))
   \<and> normalizeOnlyAndExceptProperty env Undefined = ([], Arr [])
   \<and> normalizeOnlyAndExceptProperty env Null = ([], Arr [])
   \<and> normalizeOnlyAndExceptProperty env (Boolean b) = ([], Arr [])
   \<and> normalizeOnlyAndExceptProperty env (Obj ps) = ([], Arr [])"
  by (simp add: normalizeOnlyAndExceptProperty_def)

text \<open>
  C7. Let \<open>R\<close> be the \<open>redirectTo\<close> of the object passed to the constructor. When \<open>R\<close> is
  an object that is not injectable (not an array, no \<open>$inject\<close> array) and has neither a
  \<open>state\<close> nor a \<open>default\<close> property, construction fails with the \<open>ReferenceError\<close>. A
  string, an object with a \<open>state\<close>, a callable (a function or an injectable) and an
  object with a \<open>default\<close> all construct, with the dictionary each shape stands for.
\<close>

theorem redirectTo_object_needs_default:
  assumes "R = js_get (if truthy permissionMap then permissionMap else Obj []) ''redirectTo''"
  shows "(isObject R \<and> \<not> isInjectable h R \<and> js_get R ''state'' = Undefined
            \<and> js_get R ''default'' = Undefined \<longrightarrow>
          PermissionMap env h permissionMap =
            Inl (ReferenceError ''When used redirectTo as object, property default must be defined''))
    \<and> (isString R \<longrightarrow>
          (\<exists>m. PermissionMap env h permissionMap = Inr (h, m)
             \<and> redirectTo m = Dictionary [(''default'', ReturnState R)]))
    \<and> (isObject R \<and> \<not> isInjectable h R \<and> js_get R ''state'' \<noteq> Undefined \<longrightarrow>
          (\<exists>m. PermissionMap env h permissionMap = Inr (h, m)
             \<and> redirectTo m = Dictionary [(''default'', ReturnObject R)]))
    \<and> (isInjectable h R \<or> isFunction R \<longrightarrow>
          (\<exists>h' m. PermissionMap env h permissionMap = Inr (h', m)
             \<and> redirectTo m = Dictionary [(''default'', Supplied R)]))
    \<and> (isObject R \<and> \<not> isInjectable h R \<and> js_get R ''state'' = Undefined
            \<and> js_get R ''default'' \<noteq> Undefined \<longrightarrow>
          (\<exists>h' m d. PermissionMap env h permissionMap = Inr (h', m)
             \<and> redirectTo m = Dictionary d))"
proof -
  note unfold = PermissionMap_unfold [OF assms, of env h]
  have fails: "PermissionMap env h permissionMap =
      Inl (ReferenceError ''When used redirectTo as object, property default must be defined'')"
    if "isObject R" "\<not> isInjectable h R" "js_get R ''state'' = Undefined"
      "js_get R ''default'' = Undefined"
    using normalizeRedirectToProperty_no_default [OF that] by (simp add: unfold)
  have string: "\<exists>m. PermissionMap env h permissionMap = Inr (h, m)
       \<and> redirectTo m = Dictionary [(''default'', ReturnState R)]"
    if "isString R"
    using normalizeRedirectToProperty_string [OF that, of h] by (simp add: unfold)
  have single: "\<exists>m. PermissionMap env h permissionMap = Inr (h, m)
       \<and> redirectTo m = Dictionary [(''default'', ReturnObject R)]"
    if "isObject R" "\<not> isInjectable h R" "js_get R ''state'' \<noteq> Undefined"
    using normalizeRedirectToProperty_single [OF that] by (simp add: unfold)
  have callable: "\<exists>h' m. PermissionMap env h permissionMap = Inr (h', m)
       \<and> redirectTo m = Dictionary [(''default'', Supplied R)]"
    if "isInjectable h R \<or> isFunction R"
    using normalizeRedirectToProperty_callable [OF that] by (auto simp: unfold)
  have dictionary: "\<exists>h' m d. PermissionMap env h permissionMap = Inr (h', m)
       \<and> redirectTo m = Dictionary d"
    if "isObject R" "\<not> isInjectable h R" "js_get R ''state'' = Undefined"
      "js_get R ''default'' \<noteq> Undefined"
    using normalizeRedirectToProperty_dictionary [OF that] by (auto simp: unfold)
  from fails string single callable dictionary show ?thesis by blast
qed

theorem redirectTo_object_needs_default_witness:
  "PermissionMap
     \<lparr>PermTransitionProperties = Obj [], call = (\<lambda>f ctx. Arr []), arity = (\<lambda>f. 0),
      injector_invoke = (\<lambda>f name ctx. Returns Undefined)\<rparr>
     (\<lambda>r. Undefined)
     (Obj [(''only'', Str ''admin''), (''redirectTo'', Obj [(''admin'', Str ''dashboard'')])])
   = Inl (ReferenceError ''When used redirectTo as object, property default must be defined'')
   \<and> PermissionMap
     \<lparr>PermTransitionProperties = Obj [], call = (\<lambda>f ctx. Arr []), arity = (\<lambda>f. 0),
      injector_invoke = (\<lambda>f name ctx. Returns Undefined)\<rparr>
     (\<lambda>r. Undefined) (Obj [(''redirectTo'', Str ''login'')])
   = Inr (\<lambda>r. Undefined,
          \<lparr>only = Arr [], except = Arr [],
           redirectTo = Dictionary [(''default'', ReturnState (Str ''login''))]\<rparr>)
   \<and> PermissionMap
     \<lparr>PermTransitionProperties = Obj [], call = (\<lambda>f ctx. Arr []), arity = (\<lambda>f. 0),
      injector_invoke = (\<lambda>f name ctx. Returns Undefined)\<rparr>
     (\<lambda>r. Undefined) (Obj [(''redirectTo'', Obj [(''state'', Str ''login'')])])
   = Inr (\<lambda>r. Undefined,
          \<lparr>only = Arr [], except = Arr [],
           redirectTo = Dictionary [(''default'', ReturnObject (Obj [(''state'', Str ''login'')]))]\<rparr>)
   \<and> PermissionMap
     \<lparr>PermTransitionProperties = Obj [], call = (\<lambda>f ctx. Arr []), arity = (\<lambda>f. 0),
      injector_invoke = (\<lambda>f name ctx. Returns Undefined)\<rparr>
     (\<lambda>r. Undefined) (Obj [(''redirectTo'', Arr [Str ''$state'', Fn 3])])
   = Inr (\<lambda>r. Undefined,
          \<lparr>only = Arr [], except = Arr [],
           redirectTo = Dictionary [(''default'', Supplied (Arr [Str ''$state'', Fn 3]))]\<rparr>)
   \<and> PermissionMap
     \<lparr>PermTransitionProperties = Obj [], call = (\<lambda>f ctx. Arr []), arity = (\<lambda>f. 0),
      injector_invoke = (\<lambda>f name ctx. Returns Undefined)\<rparr>
     (\<lambda>r. Undefined)
     (Obj [(''redirectTo'', Obj [(''default'', Str ''login''), (''admin'', Str ''dashboard'')])])
   = Inr (\<lambda>r. Undefined,
          \<lparr>only = Arr [], except = Arr [],
           redirectTo = Dictionary [(''default'', ReturnState (Str ''login'')),
                                    (''admin'', ReturnState (Str ''dashboard''))]\<rparr>)"
  using
    redirectTo_object_needs_default
      [of "Obj [(''admin'', Str ''dashboard'')]"
          "Obj [(''only'', Str ''admin''), (''redirectTo'', Obj [(''admin'', Str ''dashboard'')])]"
          "\<lambda>r. Undefined"
          "\<lparr>PermTransitionProperties = Obj [], call = (\<lambda>f ctx. Arr []), arity = (\<lambda>f. 0),
            injector_invoke = (\<lambda>f name ctx. Returns Undefined)\<rparr>"]
    redirectTo_object_needs_default
      [of "Str ''login''" "Obj [(''redirectTo'', Str ''login'')]" "\<lambda>r. Undefined"
          "\<lparr>PermTransitionProperties = Obj [], call = (\<lambda>f ctx. Arr []), arity = (\<lambda>f. 0),
            injector_invoke = (\<lambda>f name ctx. Returns Undefined)\<rparr>"]
    redirectTo_object_needs_default
      [of "Obj [(''state'', Str ''login'')]" "Obj [(''redirectTo'', Obj [(''state'', Str ''login'')])]"
          "\<lambda>r. Undefined"
          "\<lparr>PermTransitionProperties = Obj [], call = (\<lambda>f ctx. Arr []), arity = (\<lambda>f. 0),
            injector_invoke = (\<lambda>f name ctx. Returns Undefined)\<rparr>"]
    redirectTo_object_needs_default
      [of "Arr [Str ''$state'', Fn 3]" "Obj [(''redirectTo'', Arr [Str ''$state'', Fn 3])]"
          "\<lambda>r. Undefined"
          "\<lparr>PermTransitionProperties = Obj [], call = (\<lambda>f ctx. Arr []), arity = (\<lambda>f. 0),
            injector_invoke = (\<lambda>f name ctx. Returns Undefined)\<rparr>"]
    redirectTo_object_needs_default
      [of "Obj [(''default'', Str ''login''), (''admin'', Str ''dashboard'')]"
          "Obj [(''redirectTo'', Obj [(''default'', Str ''login''), (''admin'', Str ''dashboard'')])]"
          "\<lambda>r. Undefined"
          "\<lparr>PermTransitionProperties = Obj [], call = (\<lambda>f ctx. Arr []), arity = (\<lambda>f. 0),
            injector_invoke = (\<lambda>f name ctx. Returns Undefined)\<rparr>"]
  by (simp add: PermissionMap_def normalizeOnlyAndExceptProperty_def normalizeRedirectToProperty_def
      normalizeStringRedirectionRule_def normalizeFunctionRedirectionRule_def
      isObjectSingleRedirectionRule_def isObjectMultipleRedirectionRule_def
      normalizeObjectSingleRedirectionRule_def
      normalizeObjectMultipleRedirectionRule_def normalizeRedirection_def)

text \<open>
  C8. \<open>extendPermissionMap\<close> appends the \<open>only\<close> of the map it is given, as one group,
  after the groups already there, unless it is empty; the same for \<open>except\<close>. When the
  given map has a \<open>redirectTo\<close>, the new dictionary holds the entries of both, an entry of
  the given map overriding one of the same key (for each key the binding listed last
  counts, which for an object is its only one). For the path of a parent state with
  \<open>only: ["A"]\<close> and a child state with \<open>only: ["B"]\<close> the \<open>StatePermissionMap\<close> has exactly
  the two groups \<open>["A"]\<close>, \<open>["B"]\<close>, in that order.
\<close>

theorem extendPermissionMap_appends_and_merges:
  assumes "has_length env (only permissionMap) = Inr only_length"
    and "has_length env (except permissionMap) = Inr except_length"
  shows "\<exists>this'. extendPermissionMap env this permissionMap = Inr this'
    \<and> only this' = only this @ (if only_length then [only permissionMap] else [])
    \<and> except this' = except this @ (if except_length then [except permissionMap] else [])
    \<and> (redirectTo permissionMap = Unchanged Undefined \<longrightarrow> redirectTo this' = redirectTo this)
    \<and> (redirectTo permissionMap \<noteq> Unchanged Undefined \<longrightarrow>
          (\<exists>d. redirectTo this' = Dictionary d
             \<and> map_of d = map_of (rev (own_entries (redirectTo this)))
                           ++ map_of (rev (own_entries (redirectTo permissionMap)))))
    \<and> StatePermissionMap env h
          [Obj [(''data'', Obj [(''permissions'', Obj [(''only'', Arr [Str ''A''])])])],
           Obj [(''data'', Obj [(''permissions'', Obj [(''only'', Arr [Str ''B''])])])]]
        = Inr (h, \<lparr>only = [Arr [Str ''A''], Arr [Str ''B'']], except = [],
                   redirectTo = Unchanged Undefined\<rparr>)"
proof -
  have path: "StatePermissionMap env h
          [Obj [(''data'', Obj [(''permissions'', Obj [(''only'', Arr [Str ''A''])])])],
           Obj [(''data'', Obj [(''permissions'', Obj [(''only'', Arr [Str ''B''])])])]]
        = Inr (h, \<lparr>only = [Arr [Str ''A''], Arr [Str ''B'']], except = [],
                   redirectTo = Unchanged Undefined\<rparr>)"
    by (simp add: StatePermissionMap_def areSetStatePermissions_def PermissionMap_def
        normalizeOnlyAndExceptProperty_def normalizeRedirectToProperty_def
        extendPermissionMap_def)
  show ?thesis
    using assms path by (simp add: extendPermissionMap_def map_of_angular_extend)
qed

theorem extendPermissionMap_appends_and_merges_witness:
  "has_length
     \<lparr>PermTransitionProperties = Obj [], call = (\<lambda>f ctx. Arr []), arity = (\<lambda>f. 0),
      injector_invoke = (\<lambda>f name ctx. Returns Undefined)\<rparr> (Arr [Str ''B'']) = Inr True
   \<and> has_length
     \<lparr>PermTransitionProperties = Obj [], call = (\<lambda>f ctx. Arr []), arity = (\<lambda>f. 0),
      injector_invoke = (\<lambda>f name ctx. Returns Undefined)\<rparr> (Arr []) = Inr False
   \<and> extendPermissionMap
       \<lparr>PermTransitionProperties = Obj [], call = (\<lambda>f ctx. Arr []), arity = (\<lambda>f. 0),
        injector_invoke = (\<lambda>f name ctx. Returns Undefined)\<rparr>
       \<lparr>only = [Arr [Str ''A'']], except = [Arr [Str ''X'']],
        redirectTo = Dictionary [(''default'', ReturnState (Str ''login'')),
                                 (''A'', ReturnState (Str ''home''))]\<rparr>
       \<lparr>only = Arr [Str ''B''], except = Arr [],
        redirectTo = Dictionary [(''A'', ReturnState (Str ''dashboard''))]\<rparr>
     = Inr \<lparr>only = [Arr [Str ''A''], Arr [Str ''B'']], except = [Arr [Str ''X'']],
            redirectTo = Dictionary [(''default'', ReturnState (Str ''login'')),
                                     (''A'', ReturnState (Str ''dashboard''))]\<rparr>"
  using extendPermissionMap_appends_and_merges
    [of "\<lparr>PermTransitionProperties = Obj [], call = (\<lambda>f ctx. Arr []), arity = (\<lambda>f. 0),
          injector_invoke = (\<lambda>f name ctx. Returns Undefined)\<rparr>"
        "\<lparr>only = Arr [Str ''B''], except = Arr [],
          redirectTo = Dictionary [(''A'', ReturnState (Str ''dashboard''))]\<rparr>"
        True False
        "\<lparr>only = [Arr [Str ''A'']], except = [Arr [Str ''X'']],
          redirectTo = Dictionary [(''default'', ReturnState (Str ''login'')),
                                   (''A'', ReturnState (Str ''home''))]\<rparr>"]
  by (simp add: extendPermissionMap_def angular_extend_def)

text \<open>
  C10. Construction writes to the caller's own function object. When \<open>redirectTo\<close> is a
  function that is not injectable, the dictionary's \<open>default\<close> is that very function (the
  same reference) and after construction it carries the \<open>$inject\<close> annotation; the same
  for each function-valued entry of a dictionary-shaped \<open>redirectTo\<close>. Nothing else
  changes: a function object whose \<open>$inject\<close> differs afterwards is one of those, was not
  injectable before, and now carries exactly that annotation.
\<close>

theorem normalization_annotates_the_callers_function:
  assumes "R = js_get (if truthy permissionMap then permissionMap else Obj []) ''redirectTo''"
    and "PermissionMap env h permissionMap = Inr (h', m)"
  shows "(\<forall>r. R = Fn r \<and> \<not> isInjectable h R \<longrightarrow>
            h' r = backwards_compatible_inject
          \<and> redirectTo m = Dictionary [(''default'', Supplied (Fn r))])
    \<and> (\<forall>ps key r. R = Obj ps \<and> \<not> isInjectable h R \<and> js_get R ''state'' = Undefined
            \<and> distinct (map fst ps) \<and> (key, Fn r) \<in> set ps \<and> \<not> isInjectable h (Fn r) \<longrightarrow>
            h' r = backwards_compatible_inject
          \<and> read_redirectTo (redirectTo m) key = Inr (Some (Supplied (Fn r))))
    \<and> (\<forall>r. h' r \<noteq> h r \<longrightarrow>
            h' r = backwards_compatible_inject \<and> \<not> isInjectable h (Fn r)
          \<and> (R = Fn r \<or> (\<exists>key. (key, Fn r) \<in> set (own_properties R))))"
proof -
  have norm: "normalizeRedirectToProperty h R = Inr (h', redirectTo m)"
    using assms(2,1) by (rule PermissionMap_Inr)
  note heap = normalizeRedirectToProperty_heap [OF norm]
  have shape3: "h' r = backwards_compatible_inject
      \<and> redirectTo m = Dictionary [(''default'', Supplied (Fn r))]"
    if "R = Fn r" "\<not> isInjectable h R" for r
    using norm that heap [of r]
    by (auto simp: normalizeRedirectToProperty_def normalizeFunctionRedirectionRule_def)
  have shape4: "h' r = backwards_compatible_inject
      \<and> read_redirectTo (redirectTo m) key = Inr (Some (Supplied (Fn r)))"
    if R: "R = Obj ps" "\<not> isInjectable h R" "js_get R ''state'' = Undefined"
      and ps: "distinct (map fst ps)" "(key, Fn r) \<in> set ps" and r: "\<not> isInjectable h (Fn r)"
    for ps key r
  proof -
    from norm R have "redirectTo m = Dictionary (snd (fold normalizeRedirection ps (h, [])))"
      by (auto simp: normalizeRedirectToProperty_def normalizeObjectMultipleRedirectionRule_def
          isObjectSingleRedirectionRule_def isDefined_iff split: if_splits prod.splits)
    moreover have "map_of (snd (fold normalizeRedirection ps (h, []))) key = Some (Supplied (Fn r))"
      using ps by (rule fold_normalizeRedirection_function) simp
    moreover have "h' r = backwards_compatible_inject"
      using heap [of r] R ps(2) r by auto
    ultimately show ?thesis by simp
  qed
  have frame: "h' r = backwards_compatible_inject \<and> \<not> isInjectable h (Fn r)
      \<and> (R = Fn r \<or> (\<exists>key. (key, Fn r) \<in> set (own_properties R)))"
    if "h' r \<noteq> h r" for r
    using heap [of r] that by (auto split: if_splits)
  from shape3 shape4 frame show ?thesis by blast
qed

theorem normalization_annotates_the_callers_function_witness:
  "PermissionMap
     \<lparr>PermTransitionProperties = Obj [], call = (\<lambda>f ctx. Arr []), arity = (\<lambda>f. 0),
      injector_invoke = (\<lambda>f name ctx. Returns Undefined)\<rparr>
     (\<lambda>r. Undefined)
     (Obj [(''redirectTo'', Obj [(''default'', Fn 7), (''admin'', Arr [Str ''$state'', Fn 8])])])
   = Inr ((\<lambda>r. Undefined)(7 := backwards_compatible_inject),
          \<lparr>only = Arr [], except = Arr [],
           redirectTo = Dictionary [(''default'', Supplied (Fn 7)),
                                    (''admin'', Supplied (Arr [Str ''$state'', Fn 8]))]\<rparr>)
   \<and> ((\<lambda>r::nat. Undefined)(7 := backwards_compatible_inject)) 7
       = Arr [Str ''rejectedPermission'', Str ''transitionProperties'']
   \<and> ((\<lambda>r::nat. Undefined)(7 := backwards_compatible_inject)) 8 = Undefined
   \<and> PermissionMap
     \<lparr>PermTransitionProperties = Obj [], call = (\<lambda>f ctx. Arr []), arity = (\<lambda>f. 0),
      injector_invoke = (\<lambda>f name ctx. Returns Undefined)\<rparr>
     (\<lambda>r. Undefined) (Obj [(''redirectTo'', Fn 5)])
   = Inr ((\<lambda>r. Undefined)(5 := backwards_compatible_inject),
          \<lparr>only = Arr [], except = Arr [],
           redirectTo = Dictionary [(''default'', Supplied (Fn 5))]\<rparr>)"
  using normalization_annotates_the_callers_function
    [of "Obj [(''default'', Fn 7), (''admin'', Arr [Str ''$state'', Fn 8])]"
        "Obj [(''redirectTo'', Obj [(''default'', Fn 7), (''admin'', Arr [Str ''$state'', Fn 8])])]"
        "\<lparr>PermTransitionProperties = Obj [], call = (\<lambda>f ctx. Arr []), arity = (\<lambda>f. 0),
          injector_invoke = (\<lambda>f name ctx. Returns Undefined)\<rparr>"
        "\<lambda>r. Undefined"
        "(\<lambda>r. Undefined)(7 := backwards_compatible_inject)"
        "\<lparr>only = Arr [], except = Arr [],
           redirectTo = Dictionary [(''default'', Supplied (Fn 7)),
                                    (''admin'', Supplied (Arr [Str ''$state'', Fn 8]))]\<rparr>"]
    normalization_annotates_the_callers_function
    [of "Fn 5" "Obj [(''redirectTo'', Fn 5)]"
        "\<lparr>PermTransitionProperties = Obj [], call = (\<lambda>f ctx. Arr []), arity = (\<lambda>f. 0),
          injector_invoke = (\<lambda>f name ctx. Returns Undefined)\<rparr>"
        "\<lambda>r. Undefined"
        "(\<lambda>r. Undefined)(5 := backwards_compatible_inject)"
        "\<lparr>only = Arr [], except = Arr [],
           redirectTo = Dictionary [(''default'', Supplied (Fn 5))]\<rparr>"]
  by (simp add: PermissionMap_def normalizeFunctionRedirectionRule_def normalizeOnlyAndExceptProperty_def normalizeRedirectToProperty_def
      isObjectSingleRedirectionRule_def isObjectMultipleRedirectionRule_def
      normalizeObjectMultipleRedirectionRule_def normalizeRedirection_def
      backwards_compatible_inject_def)

end
